theory Spec2Isabelle
  imports Main "HOL-Library.Word"
begin

section \<open>pylarexx: the TLX00 logger (src/datalogger/Logger.py)\<close>

text \<open>
  The theory embeds the class \<open>TLX00\<close> of \<open>Logger.py\<close>: the frame parser
  \<open>parseData\<close>, the registry operation \<open>addSensor\<close>, the maintenance commands
  \<open>setTime\<close> and \<open>deleteDeviceData\<close>, device discovery, and the acquisition loop
  \<open>loop\<close> with its nested iteration over devices, frames, data points and listeners.

  Python exceptions are values of the type \<open>error\<close>. A method that mutates \<open>self\<close>
  takes the state and returns the new one; where it can raise, it returns the exception
  (or the result) together with the state reached when it was raised, because mutations
  made before a raise persist.
\<close>

subsection \<open>Exceptions and Python indexing\<close>

datatype error =
    IndexError          \<comment> \<open>sequence index out of range\<close>
  | KeyError            \<comment> \<open>\<open>self.sensors[sensorid]\<close> on a missing key\<close>
  | OverflowError       \<comment> \<open>\<open>int.to_bytes\<close> on a negative or too large integer\<close>
  | ValueError          \<comment> \<open>\<open>list.remove(x)\<close> with \<open>x\<close> not in the list\<close>
  | USBError            \<comment> \<open>raised by the USB library\<close>
  | AttributeError      \<comment> \<open>an attribute that was never assigned is read\<close>
  | ListenerException   \<comment> \<open>raised by a listener's \<open>onNewData\<close>\<close>

type_synonym byte = "8 word"

text \<open>
  \<open>data[i]\<close> on a Python sequence: indices \<open>0 .. len-1\<close> and \<open>-len .. -1\<close> are
  valid, everything else raises \<open>IndexError\<close>.
\<close>

definition getitem :: "'a list \<Rightarrow> int \<Rightarrow> error + 'a" where
  "getitem xs i =
     (if 0 \<le> i \<and> i < int (length xs) then Inr (xs ! nat i)
      else if i < 0 \<and> - int (length xs) \<le> i then Inr (xs ! nat (int (length xs) + i))
      else Inl IndexError)"

text \<open>
  A list display \<open>[data[i1], data[i2], ...]\<close>: the subscripts are evaluated from left
  to right and the first failing one raises.
\<close>

fun getitems :: "'a list \<Rightarrow> int list \<Rightarrow> error + 'a list" where
  "getitems xs [] = Inr []"
| "getitems xs (i # js) =
     (case getitem xs i of
        Inl e \<Rightarrow> Inl e
      | Inr x \<Rightarrow> (case getitems xs js of Inl e \<Rightarrow> Inl e | Inr ys \<Rightarrow> Inr (x # ys)))"

text \<open>\<open>int.from_bytes(bs, byteorder=..., signed=False)\<close> on a list of bytes.\<close>

fun from_bytes_little :: "byte list \<Rightarrow> int" where
  "from_bytes_little [] = 0"
| "from_bytes_little (b # bs) = uint b + 256 * from_bytes_little bs"

definition from_bytes_big :: "byte list \<Rightarrow> int" where
  "from_bytes_big bs = from_bytes_little (rev bs)"

subsection \<open>Data model\<close>

text \<open>
  The module \<open>datalogger.Sensor\<close> is not part of the sources at hand. A sensor object
  is therefore represented by the constructor call that created it:
  \<open>ArexxTemperatureSensor(sensorid, sensortype, name)\<close> or
  \<open>ArexxHumiditySensor(sensorid, sensortype, name)\<close>.
\<close>

datatype sensor =
    ArexxTemperatureSensor int string string
  | ArexxHumiditySensor int string string

text \<open>The dictionary appended to \<open>datapoints\<close> in \<open>parseData\<close>.\<close>

record datapoint =
  sensorid :: int
  rawvalue :: int
  timestamp :: int
  signal :: "int option"
  sensor :: sensor

text \<open>
  The attributes that \<open>findDevices\<close> and \<open>initializeDevices\<close> attach to a USB
  device object; the endpoint addresses are \<open>None\<close> as long as they are not assigned.
  Device objects are shared between \<open>self.devices\<close> and the loop variable \<open>dev\<close>,
  so they live in a store (\<open>dev\<close> below) and are referred to by number.
\<close>

record device =
  lastTimeDataRead :: int
  deviceErrors :: int
  lastTimeSync :: int
  lastTimeDelete :: int
  outAddress :: "nat option"
  inAddress :: "nat option"

text \<open>
  The environment. A device answers each write/read exchange according to a script:
  the write raises, the read raises, or the read returns a frame. A device whose script
  is used up does not answer any more (its write raises).
  A listener's \<open>onNewData\<close> returns, raises, or calls \<open>unregisterDataListener\<close> on
  itself and returns.
\<close>

datatype reply = WriteFails | ReadFails | Frame "byte list"

datatype reaction = Returns | Raises | Unregisters

datatype usb_op = Write nat "byte list" | Read nat

datatype log_entry =
    UnableToReadNewData error
  | TooManyErrors nat
  | ErrorSettingTime nat
  | ErrorDeletingFlash nat
  | ErrorInitializing nat

text \<open>
  The state: the attributes of the \<open>TLX00\<close> object (\<open>devices\<close> to
  \<open>lastDeviceCheck\<close>), the store of device objects, the environment (the clock read by
  \<open>time.time()\<close>, the devices that \<open>usb.core.find\<close> enumerates, the outcome of
  configuring a device, the scripts of the devices, the behaviour of the listeners) and three
  observation logs that the code does not have: the transport operations performed, the
  calls of \<open>onNewData\<close> that returned, and the messages logged by the exception
  handlers.

  The clock counts whole seconds, as all its readers apply \<open>int\<close> or \<open>math.floor\<close>
  to \<open>time.time()\<close>. It advances in \<open>time.sleep(4)\<close> only: the ten milliseconds
  slept between write and read and the duration of the transport operations are not
  counted. The configuration file is not part of the model: \<open>self.config\<close> is left
  out, and the registry, the listeners and the detection flag are what they are in the
  state at hand.
\<close>

record tlx00 =
  devices :: "nat list"
  listeners :: "nat list"
  sensors :: "int \<rightharpoonup> sensor"
  requestBuffer :: "byte list"
  detectUnknownSensors :: bool
  lastDeviceCheck :: int
  dev :: "nat \<Rightarrow> device"
  clock :: int
  attached :: "nat list"
  configuration :: "nat \<Rightarrow> (nat option \<times> nat option) option"
  replies :: "nat \<Rightarrow> reply list"
  onNewData :: "nat \<Rightarrow> datapoint \<Rightarrow> reaction"
  usb_log :: "usb_op list"
  delivered :: "(nat \<times> datapoint) list"
  logged :: "log_entry list"

definition TIME_OFFSET :: int where
  "TIME_OFFSET = 946681200"

subsection \<open>The sensor registry\<close>

text \<open>
  \<open>addSensor(self, sensorid, name='Unknown', sensortype='Unknown')\<close>: two
  independent \<open>if\<close> statements on \<open>sensorid % 2\<close>.
\<close>

definition addSensor :: "int \<Rightarrow> string \<Rightarrow> string \<Rightarrow> tlx00 \<Rightarrow> tlx00" where
  "addSensor sid name sensortype st =
     (let st1 = (if sid mod 2 = 0
                 then st\<lparr>sensors := (sensors st)(sid \<mapsto> ArexxTemperatureSensor sid sensortype name)\<rparr>
                 else st)
      in if sid mod 2 = 1
         then st1\<lparr>sensors := (sensors st1)(sid \<mapsto> ArexxHumiditySensor sid sensortype name)\<rparr>
         else st1)"

subsection \<open>The frame parser\<close>

text \<open>
  The fields of one record, read at the marker position \<open>pos\<close> (lines 227 to 232):
  sensor id, raw value, device time stamp and, for marker 10, the signal byte.
\<close>

definition read_fields :: "byte list \<Rightarrow> int \<Rightarrow> error + (int \<times> int \<times> int \<times> int option)" where
  "read_fields data pos =
     (case getitems data [pos + 1, pos + 2] of
        Inl e \<Rightarrow> Inl e
      | Inr a \<Rightarrow>
     (case getitems data [pos + 3, pos + 4] of
        Inl e \<Rightarrow> Inl e
      | Inr b \<Rightarrow>
     (case getitems data [pos + 5, pos + 6, pos + 7, pos + 8] of
        Inl e \<Rightarrow> Inl e
      | Inr c \<Rightarrow>
     (case getitem data pos of
        Inl e \<Rightarrow> Inl e
      | Inr m \<Rightarrow>
        if m = 10
        then (case getitems data [pos + 9] of
                Inl e \<Rightarrow> Inl e
              | Inr d \<Rightarrow> Inr (from_bytes_little a, from_bytes_big b, from_bytes_little c,
                             Some (from_bytes_little d)))
        else Inr (from_bytes_little a, from_bytes_big b, from_bytes_little c, None)))))"

text \<open>
  Lines 233 and 234: with detection enabled, a sensor id that is not in the registry is
  added to it.
\<close>

definition detect_sensor :: "int \<Rightarrow> tlx00 \<Rightarrow> tlx00" where
  "detect_sensor sid st =
     (if detectUnknownSensors st \<and> sensors st sid = None
      then addSensor sid ''Unknown'' ''Unknown'' st else st)"

text \<open>
  The \<open>while pos < 63\<close> loop of \<open>parseData\<close>. \<open>pos\<close> and \<open>dps\<close> are the local
  variables \<open>pos\<close> and \<open>datapoints\<close>. \<open>seen\<close> is an observation that the code does
  not keep: the scan positions, that is the values of \<open>pos\<close> at which the loop body
  inspects \<open>data[pos]\<close> after \<open>pos += 1\<close>, in order.
\<close>

function parse_loop ::
  "byte list \<Rightarrow> int \<Rightarrow> datapoint list \<Rightarrow> int list \<Rightarrow> tlx00
     \<Rightarrow> (error + datapoint list) \<times> int list \<times> tlx00" where
  "parse_loop data pos dps seen st =
     (if pos < 63 then
        (let p = pos + 1; seen1 = seen @ [p] in
         case getitem data p of
           Inl e \<Rightarrow> (Inl e, seen1, st)
         | Inr b \<Rightarrow>
             if b = 0 then parse_loop data p dps seen1 st
             else if b = 255 then (Inr dps, seen1, st)
             else if (b = 9 \<or> b = 10) \<and> p < 55 then
               (case read_fields data p of
                  Inl e \<Rightarrow> (Inl e, seen1, st)
                | Inr (sid, raw, ts, sig) \<Rightarrow>
                    (let st1 = detect_sensor sid st
                     in case sensors st1 sid of
                          None \<Rightarrow> (Inl KeyError, seen1, st1)
                        | Some s \<Rightarrow>
                            parse_loop data (p + 8)
                              (dps @ [\<lparr>sensorid = sid, rawvalue = raw,
                                       timestamp = ts + TIME_OFFSET, signal = sig,
                                       sensor = s\<rparr>])
                              seen1 st1))
             else parse_loop data p dps seen1 st)
      else (Inr dps, seen, st))"
  by pat_completeness auto
termination
  by (relation "measure (\<lambda>(data, pos, dps, seen, st). nat (63 - pos))") auto

declare parse_loop.simps [simp del]

definition parseData :: "tlx00 \<Rightarrow> byte list \<Rightarrow> (error + datapoint list) \<times> tlx00" where
  "parseData st data =
     (case parse_loop data (- 1) [] [] st of (r, seen, st') \<Rightarrow> (r, st'))"

text \<open>The scan positions that \<open>parseData\<close> inspects on a frame.\<close>

definition scan_positions :: "tlx00 \<Rightarrow> byte list \<Rightarrow> int list" where
  "scan_positions st data =
     (case parse_loop data (- 1) [] [] st of (r, seen, st') \<Rightarrow> seen)"


text \<open>
  \<open>TLX00.__init__\<close> called without a configuration file, in an environment with no
  USB device, the clock at \<open>TIME_OFFSET\<close>, and empty logs.
\<close>

definition init_tlx00 :: tlx00 where
  "init_tlx00 =
     \<lparr>devices = [], listeners = [], sensors = Map.empty,
      requestBuffer = replicate 64 0, detectUnknownSensors = True, lastDeviceCheck = 0,
      dev = (\<lambda>d. \<lparr>lastTimeDataRead = 0, deviceErrors = 0, lastTimeSync = 0,
                    lastTimeDelete = 0, outAddress = None, inAddress = None\<rparr>),
      clock = 946681200, attached = [], configuration = (\<lambda>d. Some (Some 1, Some 129)),
      replies = (\<lambda>d. []), onNewData = (\<lambda>l dp. Returns),
      usb_log = [], delivered = [], logged = []\<rparr>"

section \<open>Properties of the frame parser\<close>

subsection \<open>One iteration of the scan loop\<close>

lemma getitem_in_range: "0 \<le> i \<Longrightarrow> i < int (length xs) \<Longrightarrow> getitem xs i = Inr (xs ! nat i)"
  by (simp add: getitem_def)

lemma read_fields_in_range:
  assumes "length data = 64" "0 \<le> p" "p < 55"
  shows "read_fields data p =
     Inr (from_bytes_little [data ! nat (p + 1), data ! nat (p + 2)],
          from_bytes_big [data ! nat (p + 3), data ! nat (p + 4)],
          from_bytes_little [data ! nat (p + 5), data ! nat (p + 6), data ! nat (p + 7), data ! nat (p + 8)],
          if data ! nat p = 10 then Some (from_bytes_little [data ! nat (p + 9)]) else None)"
  using assms by (simp add: read_fields_def getitem_in_range)

lemma addSensor_known: "sensors (addSensor sid n t st) sid \<noteq> None"
proof -
  have "sid mod 2 = 0 \<or> sid mod 2 = 1" by presburger
  then show ?thesis by (auto simp: addSensor_def Let_def)
qed

lemma detect_sensor_detect [simp]:
  "detectUnknownSensors (detect_sensor sid st) = detectUnknownSensors st"
  by (simp add: detect_sensor_def addSensor_def Let_def)

lemma detect_sensor_known:
  "detectUnknownSensors st \<Longrightarrow> sensors (detect_sensor sid st) sid \<noteq> None"
  using addSensor_known by (auto simp: detect_sensor_def)

text \<open>
  The guard of line 225: the byte at the scan position is 9 or 10 and the position is
  below 55.
\<close>

definition is_marker :: "byte \<Rightarrow> int \<Rightarrow> bool" where
  "is_marker b p \<longleftrightarrow> (b = 9 \<or> b = 10) \<and> p < 55"

lemma parse_loop_stop:
  "\<not> pos < 63 \<Longrightarrow> parse_loop data pos dps seen st = (Inr dps, seen, st)"
  by (simp add: parse_loop.simps)

lemma parse_loop_raise:
  "pos < 63 \<Longrightarrow> getitem data (pos + 1) = Inl e \<Longrightarrow>
   parse_loop data pos dps seen st = (Inl e, seen @ [pos + 1], st)"
  by (simp add: parse_loop.simps)

lemma parse_loop_sentinel:
  "pos < 63 \<Longrightarrow> getitem data (pos + 1) = Inr 255 \<Longrightarrow>
   parse_loop data pos dps seen st = (Inr dps, seen @ [pos + 1], st)"
  by (simp add: parse_loop.simps)

lemma is_markerD: "is_marker b p \<Longrightarrow> b \<noteq> 0 \<and> b \<noteq> 255 \<and> (b = 9 \<or> b = 10) \<and> p < 55"
  by (auto simp: is_marker_def)

lemma parse_loop_skip:
  "pos < 63 \<Longrightarrow> getitem data (pos + 1) = Inr b \<Longrightarrow> b \<noteq> 255 \<Longrightarrow> \<not> is_marker b (pos + 1) \<Longrightarrow>
   parse_loop data pos dps seen st = parse_loop data (pos + 1) dps (seen @ [pos + 1]) st"
  by (subst parse_loop.simps) (auto simp: is_marker_def Let_def)

lemma parse_loop_fields_raise:
  "pos < 63 \<Longrightarrow> getitem data (pos + 1) = Inr b \<Longrightarrow> is_marker b (pos + 1) \<Longrightarrow>
   read_fields data (pos + 1) = Inl e \<Longrightarrow>
   parse_loop data pos dps seen st = (Inl e, seen @ [pos + 1], st)"
  by (subst parse_loop.simps) (auto simp: is_marker_def Let_def)

lemma parse_loop_unknown:
  "pos < 63 \<Longrightarrow> getitem data (pos + 1) = Inr b \<Longrightarrow> is_marker b (pos + 1) \<Longrightarrow>
   read_fields data (pos + 1) = Inr (sid, raw, ts, sig) \<Longrightarrow>
   sensors (detect_sensor sid st) sid = None \<Longrightarrow>
   parse_loop data pos dps seen st = (Inl KeyError, seen @ [pos + 1], detect_sensor sid st)"
  by (subst parse_loop.simps) (auto simp: is_marker_def Let_def)

lemma parse_loop_record:
  "pos < 63 \<Longrightarrow> getitem data (pos + 1) = Inr b \<Longrightarrow> is_marker b (pos + 1) \<Longrightarrow>
   read_fields data (pos + 1) = Inr (sid, raw, ts, sig) \<Longrightarrow>
   sensors (detect_sensor sid st) sid = Some s \<Longrightarrow>
   parse_loop data pos dps seen st =
     parse_loop data (pos + 9)
       (dps @ [\<lparr>sensorid = sid, rawvalue = raw, timestamp = ts + TIME_OFFSET,
                signal = sig, sensor = s\<rparr>])
       (seen @ [pos + 1]) (detect_sensor sid st)"
  by (subst parse_loop.simps) (auto simp: is_marker_def Let_def add.commute [of 9 pos])

subsection \<open>The sequence of scan positions\<close>

text \<open>
  Proof devices for the scan positions of a run that starts with \<open>pos\<close>: the position
  inspected after \<open>p\<close> (\<open>next_scan\<close>), lists in which every element is followed by
  its \<open>next_scan\<close> and only the last element may hold 255 (\<open>linked\<close>), whether a call
  returned normally (\<open>returned\<close>), and their combination (\<open>trace_ok\<close>).
\<close>

definition next_scan :: "byte list \<Rightarrow> int \<Rightarrow> int" where
  "next_scan data p = (if is_marker (data ! nat p) p then p + 9 else p + 1)"

fun linked :: "byte list \<Rightarrow> int list \<Rightarrow> bool" where
  "linked data (p # q # ps) \<longleftrightarrow>
     data ! nat p \<noteq> 255 \<and> q = next_scan data p \<and> linked data (q # ps)"
| "linked data ps \<longleftrightarrow> True"

definition returned :: "error + 'a \<Rightarrow> bool" where
  "returned r \<longleftrightarrow> (case r of Inl e \<Rightarrow> False | Inr x \<Rightarrow> True)"

definition trace_ok :: "byte list \<Rightarrow> int \<Rightarrow> (error + datapoint list) \<Rightarrow> int list \<Rightarrow> bool" where
  "trace_ok data pos r ext \<longleftrightarrow>
     (if pos < 63 then ext \<noteq> [] \<and> hd ext = pos + 1 else ext = []) \<and>
     (\<forall>x \<in> set ext. pos < x \<and> x \<le> 63) \<and>
     sorted_wrt (<) ext \<and>
     linked data ext \<and>
     (ext \<noteq> [] \<longrightarrow>
        (returned r \<longrightarrow> \<not> is_marker (data ! nat (last ext)) (last ext)) \<and>
        (data ! nat (last ext) = 255 \<longrightarrow> returned r))"

lemma trace_ok_stop: "\<not> pos < 63 \<Longrightarrow> trace_ok data pos r []"
  by (simp add: trace_ok_def)

lemma trace_ok_sentinel:
  "pos < 63 \<Longrightarrow> data ! nat (pos + 1) = 255 \<Longrightarrow> trace_ok data pos (Inr dps) [pos + 1]"
  by (simp add: trace_ok_def is_marker_def returned_def)

lemma trace_ok_raise:
  "pos < 63 \<Longrightarrow> data ! nat (pos + 1) \<noteq> 255 \<Longrightarrow> trace_ok data pos (Inl e) [pos + 1]"
  by (simp add: trace_ok_def returned_def)

lemma trace_ok_cons:
  assumes "pos < 63" "data ! nat (pos + 1) \<noteq> 255" "q = next_scan data (pos + 1) - 1"
    and t: "trace_ok data q r ext"
  shows "trace_ok data pos r ((pos + 1) # ext)"
proof (cases ext)
  case Nil
  with t have "\<not> q < 63" by (auto simp: trace_ok_def split: if_splits)
  with assms(1,3) have "\<not> is_marker (data ! nat (pos + 1)) (pos + 1)"
    by (auto simp: next_scan_def is_marker_def split: if_splits)
  with Nil assms(1,2) show ?thesis by (simp add: trace_ok_def)
next
  case (Cons x xs)
  with t have x: "x = q + 1" and q: "q < 63" by (auto simp: trace_ok_def split: if_splits)
  have pq: "pos + 1 \<le> q" using assms(3) by (simp add: next_scan_def)
  have 1: "\<forall>y \<in> set ext. pos + 1 < y \<and> y \<le> 63" using t pq by (auto simp: trace_ok_def)
  have 2: "sorted_wrt (<) ext" "linked data ext" using t by (simp_all add: trace_ok_def)
  have 3: "(returned r \<longrightarrow> \<not> is_marker (data ! nat (last ext)) (last ext)) \<and>
        (data ! nat (last ext) = 255 \<longrightarrow> returned r)"
    using t Cons by (simp add: trace_ok_def)
  have 4: "linked data ((pos + 1) # ext)"
    using 2 assms(2,3) x Cons by simp
  have 5: "last ((pos + 1) # ext) = last ext" using Cons by simp
  show ?thesis
    unfolding trace_ok_def 5 using assms(1) 1 2 3 4 by auto
qed

lemma parse_loop_trace:
  "length data = 64 \<Longrightarrow> - 1 \<le> pos \<Longrightarrow> parse_loop data pos dps seen st = (r, seen', st') \<Longrightarrow>
   \<exists>ext. seen' = seen @ ext \<and> trace_ok data pos r ext"
proof (induction "nat (63 - pos)" arbitrary: pos dps seen st rule: less_induct)
  case less
  show ?case
  proof (cases "pos < 63")
    case False
    then show ?thesis using less.prems by (simp add: parse_loop_stop trace_ok_stop)
  next
    case True
    define b where "b = data ! nat (pos + 1)"
    have g: "getitem data (pos + 1) = Inr b"
      using True less.prems by (simp add: getitem_in_range b_def)
    have IH: "\<exists>ext. seen' = seen2 @ ext \<and> trace_ok data q r ext"
      if "pos < q" "parse_loop data q dps' seen2 st2 = (r, seen', st')" for q dps' seen2 st2
      using less.hyps [of q dps' seen2 st2] that less.prems True by simp
    consider (sentinel) "b = 255" | (marker) "is_marker b (pos + 1)"
      | (skip) "b \<noteq> 255" "\<not> is_marker b (pos + 1)"
      by blast
    then show ?thesis
    proof cases
      case sentinel
      then have "parse_loop data pos dps seen st = (Inr dps, seen @ [pos + 1], st)"
        using True g by (simp add: parse_loop_sentinel)
      with less.prems(3) have "r = Inr dps" "seen' = seen @ [pos + 1]" by simp_all
      then show ?thesis
        using trace_ok_sentinel [OF True, of data dps] sentinel by (simp add: b_def)
    next
      case skip
      then have "parse_loop data (pos + 1) dps (seen @ [pos + 1]) st = (r, seen', st')"
        using True g less.prems by (simp add: parse_loop_skip)
      from IH [OF _ this] obtain ext
        where e: "seen' = (seen @ [pos + 1]) @ ext" "trace_ok data (pos + 1) r ext"
        by auto
      have "trace_ok data pos r ((pos + 1) # ext)"
        using skip e(2) True by (intro trace_ok_cons [where q = "pos + 1"]) (simp_all add: b_def next_scan_def)
      with e(1) show ?thesis by simp
    next
      case marker
      then have m: "pos + 1 < 55" "b \<noteq> 255" by (auto simp: is_marker_def)
      with less.prems obtain sid raw ts sig
        where rf: "read_fields data (pos + 1) = Inr (sid, raw, ts, sig)"
        using read_fields_in_range [of data "pos + 1"] by auto
      show ?thesis
      proof (cases "sensors (detect_sensor sid st) sid")
        case None
        have "r = Inl KeyError" "seen' = seen @ [pos + 1]"
          using less.prems(3) by (simp_all add: parse_loop_unknown [OF True g marker rf None])
        then show ?thesis
          using trace_ok_raise [OF True, of data KeyError] m by (simp add: b_def)
      next
        case (Some s)
        have "parse_loop data (pos + 9)
               (dps @ [\<lparr>sensorid = sid, rawvalue = raw, timestamp = ts + TIME_OFFSET,
                signal = sig, sensor = s\<rparr>]) (seen @ [pos + 1]) (detect_sensor sid st) = (r, seen', st')"
          using less.prems(3) by (simp add: parse_loop_record [OF True g marker rf Some])
        from IH [OF _ this] obtain ext
          where e: "seen' = (seen @ [pos + 1]) @ ext" "trace_ok data (pos + 9) r ext"
          by auto
        have "trace_ok data pos r ((pos + 1) # ext)"
          using marker e(2) True m by (intro trace_ok_cons [where q = "pos + 9"]) (simp_all add: b_def next_scan_def)
        with e(1) show ?thesis by simp
      qed
    qed
  qed
qed


lemma linked_nth:
  "linked data xs \<Longrightarrow> Suc i < length xs \<Longrightarrow>
   xs ! Suc i = next_scan data (xs ! i) \<and> data ! nat (xs ! i) \<noteq> 255"
proof (induction data xs arbitrary: i rule: linked.induct)
  case (1 data p q ps)
  then show ?case by (cases i) auto
qed simp_all

lemma parse_loop_total:
  "length data = 64 \<Longrightarrow> detectUnknownSensors st \<Longrightarrow> - 1 \<le> pos \<Longrightarrow>
   \<exists>r seen' st'. parse_loop data pos dps seen st = (Inr r, seen', st')"
proof (induction "nat (63 - pos)" arbitrary: pos dps seen st rule: less_induct)
  case less
  show ?case
  proof (cases "pos < 63")
    case False
    then show ?thesis by (simp add: parse_loop_stop)
  next
    case True
    define b where "b = data ! nat (pos + 1)"
    have g: "getitem data (pos + 1) = Inr b"
      using True less.prems by (simp add: getitem_in_range b_def)
    have IH: "\<exists>r seen' st'. parse_loop data q dps' seen2 st2 = (Inr r, seen', st')"
      if "pos < q" "detectUnknownSensors st2" for q dps' seen2 st2
      using less.hyps [of q st2 dps' seen2] that less.prems True by simp
    consider (sentinel) "b = 255" | (marker) "is_marker b (pos + 1)"
      | (skip) "b \<noteq> 255" "\<not> is_marker b (pos + 1)"
      by blast
    then show ?thesis
    proof cases
      case sentinel
      then show ?thesis using True g by (simp add: parse_loop_sentinel)
    next
      case skip
      then show ?thesis
        using True g IH [of "pos + 1" st] less.prems by (simp add: parse_loop_skip)
    next
      case marker
      then have "pos + 1 < 55" by (simp add: is_marker_def)
      with less.prems obtain sid raw ts sig
        where rf: "read_fields data (pos + 1) = Inr (sid, raw, ts, sig)"
        using read_fields_in_range [of data "pos + 1"] by auto
      obtain s where s: "sensors (detect_sensor sid st) sid = Some s"
        using detect_sensor_known [OF less.prems(2), of sid] by auto
      show ?thesis
        using IH [of "pos + 9" "detect_sensor sid st"] less.prems
        by (simp add: parse_loop_record [OF True g marker rf s])
    qed
  qed
qed

lemma scan_positions_trace:
  assumes "length data = 64"
  shows "trace_ok data (- 1) (fst (parseData st data)) (scan_positions st data)"
proof -
  obtain r seen st' where run: "parse_loop data (- 1) [] [] st = (r, seen, st')"
    by (cases "parse_loop data (- 1) [] [] st") auto
  from parse_loop_trace [OF assms _ run] have "trace_ok data (- 1) r seen" by simp
  with run show ?thesis by (simp add: parseData_def scan_positions_def)
qed

lemma read_fields_agree:
  assumes "length data = 64" "length data' = 64" "0 \<le> p" "p < 55"
    and "\<forall>i. i \<le> nat (p + 9) \<longrightarrow> data' ! i = data ! i"
  shows "read_fields data' p = read_fields data p"
  using assms by (simp add: read_fields_in_range)

lemma trace_ok_lower: "trace_ok data pos r ext \<Longrightarrow> x \<in> set ext \<Longrightarrow> pos < x"
  by (simp add: trace_ok_def)

lemma parse_loop_agree:
  "length data = 64 \<Longrightarrow> length data' = 64 \<Longrightarrow> - 1 \<le> pos \<Longrightarrow>
   parse_loop data pos dps seen st = (r, seen @ ext, st') \<Longrightarrow>
   q \<in> set ext \<Longrightarrow> data ! nat q = 255 \<Longrightarrow> \<forall>i. i \<le> nat q \<longrightarrow> data' ! i = data ! i \<Longrightarrow>
   parse_loop data' pos dps seen st = (r, seen @ ext, st')"
proof (induction "nat (63 - pos)" arbitrary: pos dps seen st ext rule: less_induct)
  case less
  note len = less.prems(1,2) and pos = less.prems(3) and run = less.prems(4)
    and q = less.prems(5,6) and agree = less.prems(7)
  show ?case
  proof (cases "pos < 63")
    case False
    then show ?thesis using run q by (simp add: parse_loop_stop)
  next
    case True
    define b where "b = data ! nat (pos + 1)"
    have g: "getitem data (pos + 1) = Inr b"
      using True len pos by (simp add: getitem_in_range b_def)
    have g': "getitem data' (pos + 1) = Inr (data' ! nat (pos + 1))"
      using True len pos by (simp add: getitem_in_range)
    consider (sentinel) "b = 255" | (marker) "is_marker b (pos + 1)"
      | (skip) "b \<noteq> 255" "\<not> is_marker b (pos + 1)"
      by blast
    then show ?thesis
    proof cases
      case sentinel
      then have r: "parse_loop data pos dps seen st = (Inr dps, seen @ [pos + 1], st)"
        using True g by (simp add: parse_loop_sentinel)
      with run have e: "ext = [pos + 1]" by simp
      with q have "q = pos + 1" by simp
      with agree pos have "data' ! nat (pos + 1) = b" by (simp add: b_def)
      with sentinel g' True have "parse_loop data' pos dps seen st = (Inr dps, seen @ [pos + 1], st)"
        by (simp add: parse_loop_sentinel)
      with r run show ?thesis by simp
    next
      case skip
      then have r: "parse_loop data pos dps seen st = parse_loop data (pos + 1) dps (seen @ [pos + 1]) st"
        using True g by (simp add: parse_loop_skip)
      with run have run1: "parse_loop data (pos + 1) dps (seen @ [pos + 1]) st = (r, seen @ ext, st')"
        by simp
      from parse_loop_trace [OF len(1) _ run1] pos obtain ext1
        where e: "seen @ ext = (seen @ [pos + 1]) @ ext1" "trace_ok data (pos + 1) r ext1"
        by auto
      then have ext: "ext = (pos + 1) # ext1" by simp
      have "q \<noteq> pos + 1" using q(2) skip(1) by (auto simp: b_def)
      with q(1) ext have q1: "q \<in> set ext1" by simp
      then have "pos + 1 < q" using trace_ok_lower [OF e(2)] by simp
      with agree pos have b': "data' ! nat (pos + 1) = b" by (simp add: b_def)
      have "parse_loop data' (pos + 1) dps (seen @ [pos + 1]) st = (r, (seen @ [pos + 1]) @ ext1, st')"
        using less.hyps [of "pos + 1" dps "seen @ [pos + 1]" st ext1] True len pos run1 e(1) q1 q(2) agree
        by simp
      moreover have "parse_loop data' pos dps seen st = parse_loop data' (pos + 1) dps (seen @ [pos + 1]) st"
        using True g' b' skip by (simp add: parse_loop_skip)
      ultimately show ?thesis using ext by simp
    next
      case marker
      then have m: "pos + 1 < 55" "b \<noteq> 255" by (auto simp: is_marker_def)
      with len pos obtain sid raw ts sig
        where rf: "read_fields data (pos + 1) = Inr (sid, raw, ts, sig)"
        using read_fields_in_range [of data "pos + 1"] by auto
      show ?thesis
      proof (cases "sensors (detect_sensor sid st) sid")
        case None
        have "ext = [pos + 1]"
          using run by (simp add: parse_loop_unknown [OF True g marker rf None])
        with q m show ?thesis by (simp add: b_def)
      next
        case (Some s)
        let ?dps = "dps @ [\<lparr>sensorid = sid, rawvalue = raw, timestamp = ts + TIME_OFFSET,
                signal = sig, sensor = s\<rparr>]"
        have run1: "parse_loop data (pos + 9) ?dps (seen @ [pos + 1]) (detect_sensor sid st) = (r, seen @ ext, st')"
          using run by (simp add: parse_loop_record [OF True g marker rf Some])
        from parse_loop_trace [OF len(1) _ run1] pos obtain ext1
          where e: "seen @ ext = (seen @ [pos + 1]) @ ext1" "trace_ok data (pos + 9) r ext1"
          by auto
        then have ext: "ext = (pos + 1) # ext1" by simp
        have "q \<noteq> pos + 1" using q(2) m(2) by (auto simp: b_def)
        with q(1) ext have q1: "q \<in> set ext1" by simp
        then have lq: "pos + 9 < q" using trace_ok_lower [OF e(2)] by simp
        with agree pos have b': "data' ! nat (pos + 1) = b" by (simp add: b_def)
        have rf': "read_fields data' (pos + 1) = Inr (sid, raw, ts, sig)"
          using read_fields_agree [OF len, of "pos + 1"] pos m(1) agree lq rf by simp
        have "parse_loop data' (pos + 9) ?dps (seen @ [pos + 1]) (detect_sensor sid st) = (r, (seen @ [pos + 1]) @ ext1, st')"
          using less.hyps [of "pos + 9" ?dps "seen @ [pos + 1]" "detect_sensor sid st" ext1] True len pos run1 e(1) q1 q(2) agree
          by simp
        moreover have "parse_loop data' pos dps seen st = parse_loop data' (pos + 9) ?dps (seen @ [pos + 1]) (detect_sensor sid st)"
          using parse_loop_record [OF True _ _ rf' Some, of "data' ! nat (pos + 1)"] g' b' marker by simp
        ultimately show ?thesis using ext by simp
      qed
    qed
  qed
qed

lemma linked_sentinel_last:
  assumes "linked data xs" "q \<in> set xs" "data ! nat q = 255"
  shows "q = last xs"
proof -
  from assms(2) obtain i where i: "i < length xs" "xs ! i = q"
    by (auto simp: in_set_conv_nth)
  have "\<not> Suc i < length xs"
    using linked_nth [OF assms(1), of i] i(2) assms(3) by auto
  with i(1) have "i = length xs - 1" by arith
  moreover have "xs \<noteq> []" using i(1) by auto
  ultimately show ?thesis using i(2) by (simp add: last_conv_nth)
qed

lemma sorted_wrt_le_last:
  "sorted_wrt (<) xs \<Longrightarrow> x \<in> set xs \<Longrightarrow> (x :: int) \<le> last xs"
proof (induction xs)
  case Nil
  then show ?case by simp
next
  case (Cons a xs)
  show ?case
  proof (cases "xs = []")
    case True
    with Cons.prems show ?thesis by simp
  next
    case False
    then have "last xs \<in> set xs" by simp
    with Cons.prems(1) have a: "a \<le> last xs" by force
    show ?thesis
    proof (cases "x = a")
      case True
      with a False show ?thesis by simp
    next
      case neq: False
      with Cons.prems have "x \<in> set xs" "sorted_wrt (<) xs" by simp_all
      with Cons.IH False show ?thesis by simp
    qed
  qed
qed

subsection \<open>Example frames\<close>

text \<open>
  A frame of 64 bytes with one record of 10 bytes (marker 10, sensor 5, raw value 42,
  device time 16, signal 99), the sentinel 255 and padding.
\<close>

definition frame_10 :: "byte list" where
  "frame_10 = 10 # 5 # 0 # 0 # 42 # 16 # 0 # 0 # 0 # 99 # 255 # replicate 53 0"

lemma frame_10_run:
  "parse_loop frame_10 (- 1) [] [] init_tlx00 =
     (Inr [\<lparr>sensorid = 5, rawvalue = 42, timestamp = 946681216, signal = Some 99,
             sensor = ArexxHumiditySensor 5 ''Unknown'' ''Unknown''\<rparr>],
      [0, 9, 10], detect_sensor 5 init_tlx00)"
  by (simp add: frame_10_def parse_loop.simps getitem_def read_fields_def
        from_bytes_big_def Let_def detect_sensor_def addSensor_def init_tlx00_def TIME_OFFSET_def)

text \<open>The same frame with a record marker and further bytes after the sentinel.\<close>

definition frame_10_then_9 :: "byte list" where
  "frame_10_then_9 =
     10 # 5 # 0 # 0 # 42 # 16 # 0 # 0 # 0 # 99 # 255 # 9 # 7 # 0 # 1 # 2 # 3 # 0 # 0 # 0 #
     replicate 44 1"

subsection \<open>The claims about the parser\<close>

text \<open>
  C5. Applied to a frame that begins with 9, 5, 0, 0, 0x2A, 0x10, 0, 0, 0, 255,
  \<open>parseData\<close> returns exactly one record with sensor id 5 (little-endian), raw value
  42 (big-endian), time stamp \<open>TIME_OFFSET + 16\<close> and no signal; applied to a frame
  that begins with 10, 5, 0, 0, 0x2A, 0x10, 0, 0, 0, 0x63, 255 it returns exactly one
  record that differs from the first only in its signal, which is 99. The bytes after
  the 255 are arbitrary. The sensor of id 5 must be resolvable: detection is enabled
  (the default) or the registry knows the id.
\<close>

theorem parse_example_frames:
  assumes "detectUnknownSensors st \<or> sensors st 5 \<noteq> None"
  shows "\<exists>s. sensors (detect_sensor 5 st) 5 = Some s \<and>
     parseData st (9 # 5 # 0 # 0 # 42 # 16 # 0 # 0 # 0 # 255 # rest) =
       (Inr [\<lparr>sensorid = 5, rawvalue = 42, timestamp = TIME_OFFSET + 16,
               signal = None, sensor = s\<rparr>], detect_sensor 5 st) \<and>
     parseData st (10 # 5 # 0 # 0 # 42 # 16 # 0 # 0 # 0 # 99 # 255 # rest') =
       (Inr [\<lparr>sensorid = 5, rawvalue = 42, timestamp = TIME_OFFSET + 16,
               signal = Some 99, sensor = s\<rparr>], detect_sensor 5 st)"
proof -
  obtain s where s: "sensors (detect_sensor 5 st) 5 = Some s"
    using assms detect_sensor_known [of st 5] by (auto simp: detect_sensor_def)
  have 1: "parseData st (9 # 5 # 0 # 0 # 42 # 16 # 0 # 0 # 0 # 255 # rest) =
       (Inr [\<lparr>sensorid = 5, rawvalue = 42, timestamp = TIME_OFFSET + 16,
               signal = None, sensor = s\<rparr>], detect_sensor 5 st)"
    using s by (simp add: parseData_def parse_loop.simps getitem_def read_fields_def
        from_bytes_big_def Let_def)
  have 2: "parseData st (10 # 5 # 0 # 0 # 42 # 16 # 0 # 0 # 0 # 99 # 255 # rest') =
       (Inr [\<lparr>sensorid = 5, rawvalue = 42, timestamp = TIME_OFFSET + 16,
               signal = Some 99, sensor = s\<rparr>], detect_sensor 5 st)"
    using s by (simp add: parseData_def parse_loop.simps getitem_def read_fields_def
        from_bytes_big_def Let_def)
  from s 1 2 show ?thesis by blast
qed

text \<open>
  The two frames padded with zeros to 64 bytes, parsed by a logger that has just been
  created: sensor 5 is unknown, detection is on, and the odd id makes it a humidity
  sensor.
\<close>

theorem parse_example_frames_witness:
  "parseData init_tlx00 (9 # 5 # 0 # 0 # 42 # 16 # 0 # 0 # 0 # 255 # replicate 54 0) =
     (Inr [\<lparr>sensorid = 5, rawvalue = 42, timestamp = 946681216, signal = None,
             sensor = ArexxHumiditySensor 5 ''Unknown'' ''Unknown''\<rparr>],
      detect_sensor 5 init_tlx00) \<and>
   parseData init_tlx00 (10 # 5 # 0 # 0 # 42 # 16 # 0 # 0 # 0 # 99 # 255 # replicate 53 0) =
     (Inr [\<lparr>sensorid = 5, rawvalue = 42, timestamp = 946681216, signal = Some 99,
             sensor = ArexxHumiditySensor 5 ''Unknown'' ''Unknown''\<rparr>],
      detect_sensor 5 init_tlx00)"
proof -
  have d: "detectUnknownSensors init_tlx00 \<or> sensors init_tlx00 5 \<noteq> None"
    by (simp add: init_tlx00_def)
  have s: "sensors (detect_sensor 5 init_tlx00) 5 =
      Some (ArexxHumiditySensor 5 ''Unknown'' ''Unknown'')"
    by (simp add: detect_sensor_def addSensor_def init_tlx00_def)
  show ?thesis
    using parse_example_frames [OF d, of "replicate 54 0" "replicate 53 0"] s
    by (auto simp: TIME_OFFSET_def)
qed

text \<open>
  C10. On every frame of 64 bytes, with detection of unknown sensors enabled,
  \<open>parseData\<close> returns normally: no subscript of \<open>data\<close> is out of range (and no
  other exception is raised). Every scan position lies in 0..63, and wherever the
  marker guard holds the last field index \<open>p + 9\<close> is at most 63.
\<close>

theorem parse_total_on_frames:
  assumes "length data = 64" and "detectUnknownSensors st"
  shows "(\<exists>dps st'. parseData st data = (Inr dps, st')) \<and>
     (\<forall>p \<in> set (scan_positions st data).
        0 \<le> p \<and> p \<le> 63 \<and> (is_marker (data ! nat p) p \<longrightarrow> p + 9 \<le> 63))"
proof -
  from parse_loop_total [OF assms, of "- 1" "[]" "[]"]
  have "\<exists>dps st'. parseData st data = (Inr dps, st')"
    by (auto simp: parseData_def)
  moreover have "\<forall>p \<in> set (scan_positions st data). - 1 < p \<and> p \<le> 63"
    using scan_positions_trace [OF assms(1), of st] by (simp add: trace_ok_def)
  ultimately show ?thesis by (auto simp: is_marker_def)
qed

text \<open>
  A frame of 64 bytes that all hold the marker 9, parsed with detection enabled.
\<close>

theorem parse_total_on_frames_witness:
  "(\<exists>dps st'. parseData init_tlx00 (replicate 64 9) = (Inr dps, st')) \<and>
   list_all (\<lambda>p. 0 \<le> p \<and> p \<le> 63) (scan_positions init_tlx00 (replicate 64 9))"
proof -
  have "length (replicate 64 (9 :: byte)) = 64" by simp
  moreover have "detectUnknownSensors init_tlx00" by (simp add: init_tlx00_def)
  ultimately show ?thesis
    using parse_total_on_frames [of "replicate 64 9" init_tlx00] by (simp add: list_all_iff)
qed

text \<open>
  C6. On a frame of 64 bytes that \<open>parseData\<close> parses without raising, a scan position
  \<open>p\<close> that matches a record marker (9 or 10, below 55) is never the last one, and the
  scan position inspected after it is \<open>p + 9\<close> for both markers: the cursor advances
  by 8 and the loop head adds 1. For marker 10 the byte at \<open>p + 9\<close> is the one read as
  the signal, so the signal byte is inspected again as a scan position.
\<close>

theorem marker_advance_fixed:
  assumes "length data = 64"
    and "parseData st data = (Inr dps, st')"
    and "i < length (scan_positions st data)"
    and "scan_positions st data ! i = p"
    and "is_marker (data ! nat p) p"
  shows "Suc i < length (scan_positions st data) \<and>
     scan_positions st data ! Suc i = p + 9 \<and>
     (data ! nat p = 10 \<longrightarrow>
        (\<exists>sid raw ts. read_fields data p =
           Inr (sid, raw, ts, Some (uint (data ! nat (scan_positions st data ! Suc i))))))"
proof -
  let ?ext = "scan_positions st data"
  have t: "trace_ok data (- 1) (Inr dps) ?ext"
    using scan_positions_trace [OF assms(1), of st] assms(2) by simp
  have ne: "?ext \<noteq> []" using assms(3) by auto
  have "\<not> is_marker (data ! nat (last ?ext)) (last ?ext)"
    using t ne by (simp add: trace_ok_def returned_def)
  with assms(3-5) have "i \<noteq> length ?ext - 1"
    using ne by (auto simp: last_conv_nth)
  with assms(3) have i: "Suc i < length ?ext" by arith
  have l: "linked data ?ext" using t by (simp add: trace_ok_def)
  have n: "?ext ! Suc i = p + 9"
    using linked_nth [OF l i] assms(4,5) by (simp add: next_scan_def)
  have "p \<in> set ?ext" using assms(3,4) nth_mem by blast
  then have "- 1 < p" using t by (simp add: trace_ok_def)
  then have "0 \<le> p" by simp
  moreover have "p < 55" using assms(5) by (simp add: is_marker_def)
  ultimately have "data ! nat p = 10 \<longrightarrow>
        (\<exists>sid raw ts. read_fields data p = Inr (sid, raw, ts, Some (uint (data ! nat (p + 9)))))"
    using read_fields_in_range [OF assms(1), of p] by simp
  with i n show ?thesis by simp
qed

text \<open>
  On \<open>frame_10\<close> the marker 10 is at scan position 0, the next scan position is 9,
  and the byte there is the signal 99.
\<close>

theorem marker_advance_fixed_witness:
  "Suc 0 < length (scan_positions init_tlx00 frame_10) \<and>
   scan_positions init_tlx00 frame_10 ! Suc 0 = 9 \<and>
   (\<exists>sid raw ts. read_fields frame_10 0 = Inr (sid, raw, ts, Some 99))"
proof -
  have sp: "scan_positions init_tlx00 frame_10 = [0, 9, 10]"
    by (simp add: scan_positions_def frame_10_run)
  have pd: "parseData init_tlx00 frame_10 =
     (Inr [\<lparr>sensorid = 5, rawvalue = 42, timestamp = 946681216, signal = Some 99,
             sensor = ArexxHumiditySensor 5 ''Unknown'' ''Unknown''\<rparr>], detect_sensor 5 init_tlx00)"
    by (simp add: parseData_def frame_10_run)
  have len: "length frame_10 = 64" by (simp add: frame_10_def)
  have i: "0 < length (scan_positions init_tlx00 frame_10)" by (simp add: sp)
  have p: "scan_positions init_tlx00 frame_10 ! 0 = 0" by (simp add: sp)
  have m: "is_marker (frame_10 ! nat 0) 0" by (simp add: frame_10_def is_marker_def)
  have b: "frame_10 ! nat 0 = 10" "frame_10 ! nat 9 = 99" by (simp_all add: frame_10_def)
  from marker_advance_fixed [OF len pd i p m] b sp show ?thesis by simp
qed

text \<open>
  C7. On a frame of 64 bytes, a scan position \<open>q\<close> that holds 255 is the last scan
  position: every scan position is at most \<open>q\<close>, and \<open>parseData\<close> returns normally
  there. No byte after \<open>q\<close> is read at all: every frame that agrees with \<open>data\<close> up
  to index \<open>q\<close> yields the same records, the same registry and the same scan positions,
  whatever follows, so no record that starts after \<open>q\<close> is returned.
\<close>

theorem sentinel_halts_scan:
  assumes "length data = 64"
    and "q \<in> set (scan_positions st data)"
    and "data ! nat q = 255"
  shows "last (scan_positions st data) = q \<and>
     (\<forall>p \<in> set (scan_positions st data). p \<le> q) \<and>
     (\<exists>dps st'. parseData st data = (Inr dps, st')) \<and>
     (\<forall>data'. length data' = 64 \<and> (\<forall>i. i \<le> nat q \<longrightarrow> data' ! i = data ! i) \<longrightarrow>
        parseData st data' = parseData st data \<and>
        scan_positions st data' = scan_positions st data)"
proof -
  let ?ext = "scan_positions st data"
  obtain r st' where run: "parse_loop data (- 1) [] [] st = (r, [] @ ?ext, st')"
    by (cases "parse_loop data (- 1) [] [] st") (auto simp: scan_positions_def)
  then have pd: "parseData st data = (r, st')" by (simp add: parseData_def)
  have t: "trace_ok data (- 1) r ?ext"
    using scan_positions_trace [OF assms(1), of st] pd by simp
  have ne: "?ext \<noteq> []" using assms(2) by auto
  have l: "q = last ?ext"
    using t assms(2,3) by (intro linked_sentinel_last [of data]) (simp_all add: trace_ok_def)
  have le: "\<forall>p \<in> set ?ext. p \<le> q"
    using t l sorted_wrt_le_last [of ?ext] by (simp add: trace_ok_def)
  have "returned r" using t ne l assms(3) by (simp add: trace_ok_def)
  then obtain dps where r: "r = Inr dps" by (cases r) (simp_all add: returned_def)
  have ag: "parseData st data' = parseData st data \<and> scan_positions st data' = ?ext"
    if "length data' = 64" "\<forall>i. i \<le> nat q \<longrightarrow> data' ! i = data ! i" for data'
  proof -
    have "parse_loop data' (- 1) [] [] st = (r, [] @ ?ext, st')"
      using assms(1) that(1) _ run assms(2,3) that(2) by (rule parse_loop_agree) simp
    then show ?thesis using pd by (simp add: parseData_def scan_positions_def)
  qed
  from l le r pd ag show ?thesis by auto
qed

text \<open>
  On \<open>frame_10\<close> the sentinel is at scan position 10. \<open>frame_10_then_9\<close> agrees
  with it up to there and holds a record marker right after: the result is the same.
\<close>

theorem sentinel_halts_scan_witness:
  "last (scan_positions init_tlx00 frame_10) = 10 \<and>
   list_all (\<lambda>p. p \<le> 10) (scan_positions init_tlx00 frame_10) \<and>
   (\<exists>dps st'. parseData init_tlx00 frame_10 = (Inr dps, st')) \<and>
   parseData init_tlx00 frame_10_then_9 = parseData init_tlx00 frame_10 \<and>
   scan_positions init_tlx00 frame_10_then_9 = scan_positions init_tlx00 frame_10"
proof -
  have len: "length frame_10 = 64" by (simp add: frame_10_def)
  have q: "10 \<in> set (scan_positions init_tlx00 frame_10)"
    by (simp add: scan_positions_def frame_10_run)
  have b: "frame_10 ! nat 10 = 255" by (simp add: frame_10_def)
  have len': "length frame_10_then_9 = 64" by (simp add: frame_10_then_9_def)
  have eq: "take 11 frame_10_then_9 = take 11 frame_10"
    by (simp add: frame_10_then_9_def frame_10_def)
  have agree: "\<forall>i. i \<le> nat 10 \<longrightarrow> frame_10_then_9 ! i = frame_10 ! i"
  proof (intro allI impI)
    fix i :: nat
    assume "i \<le> nat 10"
    then have i: "i < 11" by simp
    from eq have "take 11 frame_10_then_9 ! i = take 11 frame_10 ! i" by simp
    with i show "frame_10_then_9 ! i = frame_10 ! i" by simp
  qed
  from sentinel_halts_scan [OF len q b] len' agree show ?thesis
    by (simp add: list_all_iff)
qed

section \<open>The acquisition loop\<close>

subsection \<open>Transport and maintenance commands\<close>

text \<open>
  \<open>device.write(device.outAddress, self.requestBuffer, 1000)\<close> followed by
  \<open>device.read(device.inAddress, 64, 1000)\<close>. Reading an endpoint address that was
  never assigned raises \<open>AttributeError\<close>. Otherwise the next entry of the device's
  script decides the outcome of the two calls and is used up. The operations that were
  started are logged.
\<close>

definition usb_exchange :: "nat \<Rightarrow> tlx00 \<Rightarrow> (error + byte list) \<times> tlx00" where
  "usb_exchange d st =
     (case outAddress (dev st d) of
        None \<Rightarrow> (Inl AttributeError, st)
      | Some out \<Rightarrow>
     (case replies st d of
        [] \<Rightarrow> (Inl USBError, st\<lparr>usb_log := usb_log st @ [Write d (requestBuffer st)]\<rparr>)
      | r # rs \<Rightarrow>
          (case r of
             WriteFails \<Rightarrow>
               (Inl USBError,
                st\<lparr>replies := (replies st)(d := rs),
                   usb_log := usb_log st @ [Write d (requestBuffer st)]\<rparr>)
           | ReadFails \<Rightarrow>
               (case inAddress (dev st d) of
                  None \<Rightarrow>
                    (Inl AttributeError,
                     st\<lparr>replies := (replies st)(d := rs),
                        usb_log := usb_log st @ [Write d (requestBuffer st)]\<rparr>)
                | Some inn \<Rightarrow>
                    (Inl USBError,
                     st\<lparr>replies := (replies st)(d := rs),
                        usb_log := usb_log st @ [Write d (requestBuffer st), Read d]\<rparr>))
           | Frame f \<Rightarrow>
               (case inAddress (dev st d) of
                  None \<Rightarrow>
                    (Inl AttributeError,
                     st\<lparr>replies := (replies st)(d := rs),
                        usb_log := usb_log st @ [Write d (requestBuffer st)]\<rparr>)
                | Some inn \<Rightarrow>
                    (Inr f,
                     st\<lparr>replies := (replies st)(d := rs),
                        usb_log := usb_log st @ [Write d (requestBuffer st), Read d]\<rparr>)))))"

text \<open>
  \<open>clearRequestBuffer\<close>: \<open>for i in range(0,5): self.requestBuffer[i]=0\<close>. The buffer
  is created with 64 entries and never resized, so the five indices are in range.
\<close>

definition clearRequestBuffer :: "tlx00 \<Rightarrow> tlx00" where
  "clearRequestBuffer st =
     st\<lparr>requestBuffer := fold (\<lambda>i buf. buf[i := 0]) [0..<5] (requestBuffer st)\<rparr>"

text \<open>\<open>t.to_bytes(4, byteorder='little')\<close>.\<close>

definition to_bytes4_little :: "int \<Rightarrow> error + byte list" where
  "to_bytes4_little t =
     (if 0 \<le> t \<and> t < 2 ^ 32
      then Inr [word_of_int t, word_of_int (t div 2 ^ 8), word_of_int (t div 2 ^ 16),
                word_of_int (t div 2 ^ 24)]
      else Inl OverflowError)"

text \<open>
  \<open>setTime\<close>: the conversion of the time to bytes is outside the \<open>try\<close> block, so its
  \<open>OverflowError\<close> leaves the method; a failed exchange is logged and swallowed.
\<close>

definition setTime :: "nat \<Rightarrow> tlx00 \<Rightarrow> error option \<times> tlx00" where
  "setTime d st =
     (let st1 = clearRequestBuffer st;
          st2 = st1\<lparr>requestBuffer := (requestBuffer st1)[0 := 4]\<rparr>
      in case to_bytes4_little (clock st2 - TIME_OFFSET) of
           Inl e \<Rightarrow> (Some e, st2)
         | Inr tb \<Rightarrow>
             (let st3 = st2\<lparr>requestBuffer :=
                            fold (\<lambda>i buf. buf[i + 1 := tb ! i]) [0..<4] (requestBuffer st2)\<rparr>
              in case usb_exchange d st3 of
                   (Inl e, st4) \<Rightarrow> (None, st4\<lparr>logged := logged st4 @ [ErrorSettingTime d]\<rparr>)
                 | (Inr f, st4) \<Rightarrow>
                     (None, st4\<lparr>dev := (dev st4)(d := (dev st4 d)\<lparr>lastTimeSync := clock st4\<rparr>)\<rparr>)))"

definition deleteDeviceData :: "nat \<Rightarrow> tlx00 \<Rightarrow> tlx00" where
  "deleteDeviceData d st =
     (let st1 = clearRequestBuffer st;
          st2 = st1\<lparr>requestBuffer := (requestBuffer st1)[0 := 13]\<rparr>
      in case usb_exchange d st2 of
           (Inl e, st3) \<Rightarrow> st3\<lparr>logged := logged st3 @ [ErrorDeletingFlash d]\<rparr>
         | (Inr f, st3) \<Rightarrow>
             st3\<lparr>dev := (dev st3)(d := (dev st3 d)\<lparr>lastTimeDelete := clock st3\<rparr>)\<rparr>)"

subsection \<open>Listeners\<close>

text \<open>
  \<open>unregisterDataListener\<close>: \<open>self.listeners.remove(dataListener)\<close>, where the
  exception for a listener that is not registered is swallowed.
\<close>

definition unregisterDataListener :: "nat \<Rightarrow> tlx00 \<Rightarrow> tlx00" where
  "unregisterDataListener l st = st\<lparr>listeners := remove1 l (listeners st)\<rparr>"

text \<open>
  \<open>for l in self.listeners: l.onNewData(datapoint)\<close> (lines 285 and 286). A Python
  \<open>for\<close> over a list keeps an index into the list and reads the element at that index
  as long as the index is below the current length; \<open>i\<close> is that index.
\<close>

function notify_listeners :: "datapoint \<Rightarrow> nat \<Rightarrow> tlx00 \<Rightarrow> error option \<times> tlx00" where
  "notify_listeners dp i st =
     (if i < length (listeners st) then
        (let l = listeners st ! i in
         case onNewData st l dp of
           Raises \<Rightarrow> (Some ListenerException, st)
         | Returns \<Rightarrow>
             notify_listeners dp (Suc i) (st\<lparr>delivered := delivered st @ [(l, dp)]\<rparr>)
         | Unregisters \<Rightarrow>
             notify_listeners dp (Suc i)
               (unregisterDataListener l (st\<lparr>delivered := delivered st @ [(l, dp)]\<rparr>)))
      else (None, st))"
  by pat_completeness auto
termination
  by (relation "measure (\<lambda>(dp, i, st). length (listeners st) - i)")
     (auto simp: unregisterDataListener_def length_remove1)

declare notify_listeners.simps [simp del]

text \<open>\<open>for datapoint in datapoints: ...\<close> (line 284), over a local list.\<close>

fun publish :: "datapoint list \<Rightarrow> tlx00 \<Rightarrow> error option \<times> tlx00" where
  "publish [] st = (None, st)"
| "publish (dp # dps) st =
     (case notify_listeners dp 0 st of
        (Some e, st') \<Rightarrow> (Some e, st')
      | (None, st') \<Rightarrow> publish dps st')"

subsection \<open>Polling one device\<close>

text \<open>Lines 270 and 271.\<close>

definition poll_request :: "tlx00 \<Rightarrow> tlx00" where
  "poll_request st =
     (let st1 = clearRequestBuffer st in st1\<lparr>requestBuffer := (requestBuffer st1)[0 := 3]\<rparr>)"

text \<open>Line 278: \<open>rawdata[0]==0 and rawdata[1]==0\<close>.\<close>

definition no_new_data :: "byte list \<Rightarrow> error + bool" where
  "no_new_data rawdata =
     (case getitem rawdata 0 of
        Inl e \<Rightarrow> Inl e
      | Inr b0 \<Rightarrow>
          if b0 = 0
          then (case getitem rawdata 1 of Inl e \<Rightarrow> Inl e | Inr b1 \<Rightarrow> Inr (b1 = 0))
          else Inr False)"

text \<open>
  The handler \<open>except Exception as e\<close> (lines 288 to 295), up to its \<open>break\<close>.
  \<open>self.devices.remove(dev)\<close> raises \<open>ValueError\<close> when \<open>dev\<close> is not in the list.
\<close>

definition on_poll_exception :: "nat \<Rightarrow> error \<Rightarrow> tlx00 \<Rightarrow> error option \<times> tlx00" where
  "on_poll_exception d e st =
     (let st1 = st\<lparr>logged := logged st @ [UnableToReadNewData e]\<rparr>;
          st2 = st1\<lparr>dev := (dev st1)(d := (dev st1 d)\<lparr>deviceErrors := deviceErrors (dev st1 d) + 1\<rparr>)\<rparr>
      in if deviceErrors (dev st2 d) > 10 then
           (let st3 = st2\<lparr>logged := logged st2 @ [TooManyErrors d]\<rparr>
            in if d \<in> set (devices st3)
               then (None, st3\<lparr>devices := remove1 d (devices st3)\<rparr>)
               else (Some ValueError, st3))
         else (None, st2))"

lemma usb_exchange_replies:
  "usb_exchange d st = (Inr f, st') \<Longrightarrow> length (replies st' d) < length (replies st d)"
  by (auto simp: usb_exchange_def split: list.splits reply.splits option.splits)

lemma poll_request_replies [simp]: "replies (poll_request st) = replies st"
  by (simp add: poll_request_def clearRequestBuffer_def Let_def)

lemma detect_sensor_frame:
  "detect_sensor sid st = st\<lparr>sensors := sensors (detect_sensor sid st)\<rparr>"
  by (simp add: detect_sensor_def addSensor_def Let_def)

lemma parse_loop_frame:
  "parse_loop data pos dps seen st = (r, seen', st') \<Longrightarrow> st' = st\<lparr>sensors := sensors st'\<rparr>"
proof (induction "nat (63 - pos)" arbitrary: pos dps seen st rule: less_induct)
  case less
  note run = less.prems
  show ?case
  proof (cases "pos < 63")
    case False
    then show ?thesis using run by (simp add: parse_loop_stop)
  next
    case True
    have IH: "st' = st2\<lparr>sensors := sensors st'\<rparr>"
      if "pos < q" "parse_loop data q dps' seen2 st2 = (r, seen', st')" for q dps' seen2 st2
      using less.hyps [of q dps' seen2 st2] that True by simp
    show ?thesis
    proof (cases "getitem data (pos + 1)")
      case (Inl e)
      then show ?thesis using run True by (simp add: parse_loop_raise)
    next
      case (Inr b)
      consider (sentinel) "b = 255" | (marker) "is_marker b (pos + 1)"
        | (skip) "b \<noteq> 255" "\<not> is_marker b (pos + 1)"
        by blast
      then show ?thesis
      proof cases
        case sentinel
        then show ?thesis using run True Inr by (simp add: parse_loop_sentinel)
      next
        case skip
        then have "parse_loop data (pos + 1) dps (seen @ [pos + 1]) st = (r, seen', st')"
          using run True Inr by (simp add: parse_loop_skip)
        from IH [OF _ this] show ?thesis by simp
      next
        case marker
        show ?thesis
        proof (cases "read_fields data (pos + 1)")
          case (Inl e)
          then show ?thesis
            using run by (simp add: parse_loop_fields_raise [OF True Inr marker])
        next
          case rf: (Inr t)
          obtain sid raw ts sig where t: "t = (sid, raw, ts, sig)" by (cases t) auto
          note rf = rf [unfolded t]
          show ?thesis
          proof (cases "sensors (detect_sensor sid st) sid")
            case None
            have "st' = detect_sensor sid st"
              using run by (simp add: parse_loop_unknown [OF True Inr marker rf None])
            with detect_sensor_frame [of sid st] show ?thesis by simp
          next
            case (Some s)
            have "parse_loop data (pos + 9)
               (dps @ [\<lparr>sensorid = sid, rawvalue = raw, timestamp = ts + TIME_OFFSET,
                signal = sig, sensor = s\<rparr>]) (seen @ [pos + 1]) (detect_sensor sid st) = (r, seen', st')"
              using run by (simp add: parse_loop_record [OF True Inr marker rf Some])
            from IH [OF _ this] have "st' = (detect_sensor sid st)\<lparr>sensors := sensors st'\<rparr>"
              by simp
            then have "st' = (st\<lparr>sensors := sensors (detect_sensor sid st)\<rparr>)\<lparr>sensors := sensors st'\<rparr>"
              using detect_sensor_frame [of sid st] by simp
            then show ?thesis by simp
          qed
        qed
      qed
    qed
  qed
qed

lemma parseData_frame:
  "parseData st data = (r, st') \<Longrightarrow> st' = st\<lparr>sensors := sensors st'\<rparr>"
  by (auto simp: parseData_def split: prod.splits dest: parse_loop_frame)

lemma notify_listeners_frame:
  "notify_listeners dp i st = (r, st') \<Longrightarrow>
   st' = st\<lparr>listeners := listeners st', delivered := delivered st'\<rparr>"
proof (induction dp i st rule: notify_listeners.induct)
  case (1 dp i st)
  show ?case
  proof (cases "i < length (listeners st)")
    case False
    with "1.prems" show ?thesis by (simp add: notify_listeners.simps)
  next
    case True
    show ?thesis
    proof (cases "onNewData st (listeners st ! i) dp")
      case Raises
      with True "1.prems" show ?thesis by (simp add: notify_listeners.simps)
    next
      case Returns
      with True "1.prems" "1.IH"(1) [OF True refl Returns]
      have "st' = (st\<lparr>delivered := delivered st @ [(listeners st ! i, dp)]\<rparr>)
                    \<lparr>listeners := listeners st', delivered := delivered st'\<rparr>"
        by (simp add: notify_listeners.simps [of dp i st] Let_def)
      then show ?thesis by simp
    next
      case Unregisters
      with True "1.prems" "1.IH"(2) [OF True refl Unregisters]
      have "st' = (unregisterDataListener (listeners st ! i)
                     (st\<lparr>delivered := delivered st @ [(listeners st ! i, dp)]\<rparr>))
                    \<lparr>listeners := listeners st', delivered := delivered st'\<rparr>"
        by (simp add: notify_listeners.simps [of dp i st] Let_def)
      then show ?thesis by (simp add: unregisterDataListener_def)
    qed
  qed
qed

lemma publish_frame:
  "publish dps st = (r, st') \<Longrightarrow>
   st' = st\<lparr>listeners := listeners st', delivered := delivered st'\<rparr>"
proof (induction dps arbitrary: st)
  case Nil
  then show ?case by simp
next
  case (Cons dp dps)
  obtain r1 st1 where n: "notify_listeners dp 0 st = (r1, st1)"
    by (cases "notify_listeners dp 0 st") auto
  note f1 = notify_listeners_frame [OF n]
  show ?case
  proof (cases r1)
    case None
    with Cons.prems n have "publish dps st1 = (r, st')" by simp
    from Cons.IH [OF this]
    have "st' = (st\<lparr>listeners := listeners st1, delivered := delivered st1\<rparr>)
                  \<lparr>listeners := listeners st', delivered := delivered st'\<rparr>"
      using f1 by simp
    then show ?thesis by simp
  next
    case (Some e)
    with Cons.prems n have "st' = st1" by simp
    with f1 show ?thesis by simp
  qed
qed

lemma parseData_fields:
  assumes "parseData st data = (r, st')"
  shows "devices st' = devices st" and "listeners st' = listeners st"
    and "requestBuffer st' = requestBuffer st"
    and "detectUnknownSensors st' = detectUnknownSensors st"
    and "lastDeviceCheck st' = lastDeviceCheck st" and "dev st' = dev st"
    and "clock st' = clock st" and "attached st' = attached st"
    and "configuration st' = configuration st" and "replies st' = replies st"
    and "onNewData st' = onNewData st" and "usb_log st' = usb_log st"
    and "delivered st' = delivered st" and "logged st' = logged st"
proof -
  note eq = parseData_frame [OF assms]
  show "devices st' = devices st" by (subst eq) simp
  show "listeners st' = listeners st" by (subst eq) simp
  show "requestBuffer st' = requestBuffer st" by (subst eq) simp
  show "detectUnknownSensors st' = detectUnknownSensors st" by (subst eq) simp
  show "lastDeviceCheck st' = lastDeviceCheck st" by (subst eq) simp
  show "dev st' = dev st" by (subst eq) simp
  show "clock st' = clock st" by (subst eq) simp
  show "attached st' = attached st" by (subst eq) simp
  show "configuration st' = configuration st" by (subst eq) simp
  show "replies st' = replies st" by (subst eq) simp
  show "onNewData st' = onNewData st" by (subst eq) simp
  show "usb_log st' = usb_log st" by (subst eq) simp
  show "delivered st' = delivered st" by (subst eq) simp
  show "logged st' = logged st" by (subst eq) simp
qed

lemma publish_fields:
  assumes "publish dps st = (r, st')"
  shows "devices st' = devices st" and "sensors st' = sensors st"
    and "requestBuffer st' = requestBuffer st"
    and "detectUnknownSensors st' = detectUnknownSensors st"
    and "lastDeviceCheck st' = lastDeviceCheck st" and "dev st' = dev st"
    and "clock st' = clock st" and "attached st' = attached st"
    and "configuration st' = configuration st" and "replies st' = replies st"
    and "onNewData st' = onNewData st" and "usb_log st' = usb_log st"
    and "logged st' = logged st"
proof -
  note eq = publish_frame [OF assms]
  show "devices st' = devices st" by (subst eq) simp
  show "sensors st' = sensors st" by (subst eq) simp
  show "requestBuffer st' = requestBuffer st" by (subst eq) simp
  show "detectUnknownSensors st' = detectUnknownSensors st" by (subst eq) simp
  show "lastDeviceCheck st' = lastDeviceCheck st" by (subst eq) simp
  show "dev st' = dev st" by (subst eq) simp
  show "clock st' = clock st" by (subst eq) simp
  show "attached st' = attached st" by (subst eq) simp
  show "configuration st' = configuration st" by (subst eq) simp
  show "replies st' = replies st" by (subst eq) simp
  show "onNewData st' = onNewData st" by (subst eq) simp
  show "usb_log st' = usb_log st" by (subst eq) simp
  show "logged st' = logged st" by (subst eq) simp
qed

text \<open>Line 281, \<open>dev.lastTimeDataRead = int(time.time())\<close>, and line 287, \<open>dev.deviceErrors = 0\<close>.\<close>

definition stamp_data_read :: "nat \<Rightarrow> tlx00 \<Rightarrow> tlx00" where
  "stamp_data_read d st = st\<lparr>dev := (dev st)(d := (dev st d)\<lparr>lastTimeDataRead := clock st\<rparr>)\<rparr>"

definition reset_errors :: "nat \<Rightarrow> tlx00 \<Rightarrow> tlx00" where
  "reset_errors d st = st\<lparr>dev := (dev st)(d := (dev st d)\<lparr>deviceErrors := 0\<rparr>)\<rparr>"

text \<open>
  The \<open>while True\<close> loop of lines 269 to 295 for the device \<open>d\<close>. Every iteration
  uses up one entry of the device's script, which bounds the number of iterations.
\<close>

function poll_device :: "nat \<Rightarrow> tlx00 \<Rightarrow> error option \<times> tlx00" where
  "poll_device d st =
     (case usb_exchange d (poll_request st) of
        (Inl e, st1) \<Rightarrow> on_poll_exception d e st1
      | (Inr rawdata, st1) \<Rightarrow>
          (case no_new_data rawdata of
             Inl e \<Rightarrow> on_poll_exception d e st1
           | Inr True \<Rightarrow> (None, st1)
           | Inr False \<Rightarrow>
               (case parseData (stamp_data_read d st1) rawdata of
                  (Inl e, st3) \<Rightarrow> on_poll_exception d e st3
                | (Inr datapoints, st3) \<Rightarrow>
                    (case publish datapoints st3 of
                       (Some e, st4) \<Rightarrow> on_poll_exception d e st4
                     | (None, st4) \<Rightarrow> poll_device d (reset_errors d st4)))))"
  by pat_completeness auto
termination
proof (relation "measure (\<lambda>(d, st). length (replies st d))", goal_cases)
  case 1
  show ?case by simp
next
  case (2 d st x1 st1 rawdata nd x2 st3 datapoints x3 st4)
  have "length (replies st1 d) < length (replies st d)"
    using usb_exchange_replies [of d "poll_request st" rawdata st1] 2 by simp
  moreover have "replies st3 = replies st1"
    using parseData_fields(10) [of "stamp_data_read d st1" rawdata "Inr datapoints" st3] 2
    by (simp add: stamp_data_read_def)
  moreover have "replies st4 = replies st3"
    using publish_fields(10) [of datapoints st3 None st4] 2 by simp
  ultimately show ?case by (simp add: reset_errors_def)
qed

declare poll_device.simps [simp del]


subsection \<open>One iteration of the poll loop\<close>

lemma poll_exchange_fails:
  "usb_exchange d (poll_request st) = (Inl e, st1) \<Longrightarrow>
   poll_device d st = on_poll_exception d e st1"
  by (subst poll_device.simps) simp

lemma poll_short_frame:
  "usb_exchange d (poll_request st) = (Inr f, st1) \<Longrightarrow> no_new_data f = Inl e \<Longrightarrow>
   poll_device d st = on_poll_exception d e st1"
  by (subst poll_device.simps) simp

lemma poll_no_new_data:
  "usb_exchange d (poll_request st) = (Inr f, st1) \<Longrightarrow> no_new_data f = Inr True \<Longrightarrow>
   poll_device d st = (None, st1)"
  by (subst poll_device.simps) simp

lemma poll_parse_fails:
  "usb_exchange d (poll_request st) = (Inr f, st1) \<Longrightarrow> no_new_data f = Inr False \<Longrightarrow>
   parseData (stamp_data_read d st1) f = (Inl e, st3) \<Longrightarrow>
   poll_device d st = on_poll_exception d e st3"
  by (subst poll_device.simps) simp

lemma poll_publish_fails:
  "usb_exchange d (poll_request st) = (Inr f, st1) \<Longrightarrow> no_new_data f = Inr False \<Longrightarrow>
   parseData (stamp_data_read d st1) f = (Inr dps, st3) \<Longrightarrow>
   publish dps st3 = (Some e, st4) \<Longrightarrow>
   poll_device d st = on_poll_exception d e st4"
  by (subst poll_device.simps) simp

lemma poll_continue:
  "usb_exchange d (poll_request st) = (Inr f, st1) \<Longrightarrow> no_new_data f = Inr False \<Longrightarrow>
   parseData (stamp_data_read d st1) f = (Inr dps, st3) \<Longrightarrow>
   publish dps st3 = (None, st4) \<Longrightarrow>
   poll_device d st = poll_device d (reset_errors d st4)"
  by (subst poll_device.simps) simp

lemma poll_device_cases [case_names fail short nodata parse publish continue]:
  assumes fail: "\<And>st e st1. usb_exchange d (poll_request st) = (Inl e, st1) \<Longrightarrow>
      P st (on_poll_exception d e st1)"
    and short: "\<And>st f st1 e. usb_exchange d (poll_request st) = (Inr f, st1) \<Longrightarrow>
      no_new_data f = Inl e \<Longrightarrow> P st (on_poll_exception d e st1)"
    and nodata: "\<And>st f st1. usb_exchange d (poll_request st) = (Inr f, st1) \<Longrightarrow>
      no_new_data f = Inr True \<Longrightarrow> P st (None, st1)"
    and parse: "\<And>st f st1 e st3. usb_exchange d (poll_request st) = (Inr f, st1) \<Longrightarrow>
      no_new_data f = Inr False \<Longrightarrow> parseData (stamp_data_read d st1) f = (Inl e, st3) \<Longrightarrow>
      P st (on_poll_exception d e st3)"
    and publish: "\<And>st f st1 dps st3 e st4. usb_exchange d (poll_request st) = (Inr f, st1) \<Longrightarrow>
      no_new_data f = Inr False \<Longrightarrow> parseData (stamp_data_read d st1) f = (Inr dps, st3) \<Longrightarrow>
      publish dps st3 = (Some e, st4) \<Longrightarrow> P st (on_poll_exception d e st4)"
    and continue: "\<And>st f st1 dps st3 st4. usb_exchange d (poll_request st) = (Inr f, st1) \<Longrightarrow>
      no_new_data f = Inr False \<Longrightarrow> parseData (stamp_data_read d st1) f = (Inr dps, st3) \<Longrightarrow>
      publish dps st3 = (None, st4) \<Longrightarrow>
      P (reset_errors d st4) (poll_device d (reset_errors d st4)) \<Longrightarrow>
      P st (poll_device d (reset_errors d st4))"
  shows "P st (poll_device d st)"
proof (induction "length (replies st d)" arbitrary: st rule: less_induct)
  case less
  obtain r st1 where ex: "usb_exchange d (poll_request st) = (r, st1)"
    by (cases "usb_exchange d (poll_request st)") auto
  show ?case
  proof (cases r)
    case (Inl e)
    with ex fail [of st e st1] show ?thesis by (simp add: poll_exchange_fails)
  next
    case (Inr f)
    note ex = ex [unfolded Inr]
    show ?thesis
    proof (cases "no_new_data f")
      case (Inl e)
      with ex short [of st f st1 e] show ?thesis by (simp add: poll_short_frame)
    next
      case nd: (Inr b)
      show ?thesis
      proof (cases b)
        case True
        with nd ex nodata [of st f st1] show ?thesis by (simp add: poll_no_new_data)
      next
        case False
        with nd have nd: "no_new_data f = Inr False" by simp
        obtain r3 st3 where pa: "parseData (stamp_data_read d st1) f = (r3, st3)"
          by (cases "parseData (stamp_data_read d st1) f") auto
        show ?thesis
        proof (cases r3)
          case (Inl e)
          with pa ex nd parse [of st f st1 e st3] show ?thesis by (simp add: poll_parse_fails)
        next
          case (Inr dps)
          note pa = pa [unfolded Inr]
          obtain r4 st4 where pu: "publish dps st3 = (r4, st4)"
            by (cases "publish dps st3") auto
          show ?thesis
          proof (cases r4)
            case (Some e)
            with pu pa ex nd publish [of st f st1 dps st3 e st4] show ?thesis
              by (simp add: poll_publish_fails)
          next
            case None
            note pu = pu [unfolded None]
            have "length (replies st1 d) < length (replies st d)"
              using usb_exchange_replies [OF ex] by simp
            moreover have "replies st3 = replies st1"
              using parseData_fields(10) [OF pa] by (simp add: stamp_data_read_def)
            moreover have "replies st4 = replies st3"
              using publish_fields(10) [OF pu] by simp
            ultimately have "length (replies (reset_errors d st4) d) < length (replies st d)"
              by (simp add: reset_errors_def)
            from less [OF this] have "P (reset_errors d st4) (poll_device d (reset_errors d st4))" .
            from continue [OF ex nd pa pu this] show ?thesis
              by (simp add: poll_continue [OF ex nd pa pu])
          qed
        qed
      qed
    qed
  qed
qed

lemma usb_exchange_fields:
  assumes "usb_exchange d st = (r, st')"
  shows "devices st' = devices st" and "listeners st' = listeners st"
    and "sensors st' = sensors st" and "requestBuffer st' = requestBuffer st"
    and "detectUnknownSensors st' = detectUnknownSensors st"
    and "lastDeviceCheck st' = lastDeviceCheck st" and "dev st' = dev st"
    and "clock st' = clock st" and "attached st' = attached st"
    and "configuration st' = configuration st"
    and "onNewData st' = onNewData st"
    and "delivered st' = delivered st" and "logged st' = logged st"
  using assms by (auto simp: usb_exchange_def split: list.splits reply.splits option.splits)


text \<open>Both endpoint addresses of the device have been assigned.\<close>

definition initialized :: "tlx00 \<Rightarrow> nat \<Rightarrow> bool" where
  "initialized st d \<longleftrightarrow> outAddress (dev st d) \<noteq> None \<and> inAddress (dev st d) \<noteq> None"

lemma frame_exchange:
  "initialized st d \<Longrightarrow> replies st d = Frame f # rs \<Longrightarrow>
   usb_exchange d st =
     (Inr f, st\<lparr>replies := (replies st)(d := rs),
               usb_log := usb_log st @ [Write d (requestBuffer st), Read d]\<rparr>)"
  by (auto simp: usb_exchange_def initialized_def)

lemma poll_request_fields [simp]:
  "devices (poll_request st) = devices st" "listeners (poll_request st) = listeners st"
  "sensors (poll_request st) = sensors st"
  "detectUnknownSensors (poll_request st) = detectUnknownSensors st"
  "lastDeviceCheck (poll_request st) = lastDeviceCheck st" "dev (poll_request st) = dev st"
  "clock (poll_request st) = clock st" "attached (poll_request st) = attached st"
  "configuration (poll_request st) = configuration st"
  "onNewData (poll_request st) = onNewData st" "usb_log (poll_request st) = usb_log st"
  "delivered (poll_request st) = delivered st" "logged (poll_request st) = logged st"
  "initialized (poll_request st) = initialized st"
  by (simp_all add: poll_request_def clearRequestBuffer_def Let_def initialized_def fun_eq_iff)

lemma on_poll_exception_devices:
  "length (devices (snd (on_poll_exception d e st))) \<le> length (devices st)"
  by (simp add: on_poll_exception_def Let_def length_remove1)

lemma poll_device_devices:
  "length (devices (snd (poll_device d st))) \<le> length (devices st)"
proof (rule poll_device_cases [where d = d and st = st
      and P = "\<lambda>st res. length (devices (snd res)) \<le> length (devices st)"], goal_cases)
  case (1 st e st1)
  with on_poll_exception_devices [of d e st1] usb_exchange_fields(1) [OF 1]
  show ?case by simp
next
  case (2 st f st1 e)
  with on_poll_exception_devices [of d e st1] usb_exchange_fields(1) [OF 2(1)]
  show ?case by simp
next
  case (3 st f st1)
  with usb_exchange_fields(1) [OF 3(1)] show ?case by simp
next
  case (4 st f st1 e st3)
  with on_poll_exception_devices [of d e st3] usb_exchange_fields(1) [OF 4(1)]
    parseData_fields(1) [OF 4(3)]
  show ?case by (simp add: stamp_data_read_def)
next
  case (5 st f st1 dps st3 e st4)
  with on_poll_exception_devices [of d e st4] usb_exchange_fields(1) [OF 5(1)]
    parseData_fields(1) [OF 5(3)] publish_fields(1) [OF 5(4)]
  show ?case by (simp add: stamp_data_read_def)
next
  case (6 st f st1 dps st3 st4)
  with usb_exchange_fields(1) [OF 6(1)]
    parseData_fields(1) [OF 6(3)] publish_fields(1) [OF 6(4)]
  show ?case by (simp add: stamp_data_read_def reset_errors_def)
qed

lemma setTime_devices [simp]: "devices (snd (setTime d st)) = devices st"
  by (auto simp: setTime_def Let_def clearRequestBuffer_def usb_exchange_def
      split: sum.splits prod.splits list.splits reply.splits option.splits)

lemma setTime_devicesD: "setTime d st = (r, st') \<Longrightarrow> devices st' = devices st"
  using setTime_devices [of d st] by simp

lemma deleteDeviceData_devices [simp]: "devices (deleteDeviceData d st) = devices st"
  by (auto simp: deleteDeviceData_def Let_def clearRequestBuffer_def usb_exchange_def
      split: sum.splits prod.splits list.splits reply.splits option.splits)

subsection \<open>One pass over the devices\<close>

text \<open>The body of \<open>for dev in self.devices\<close> (lines 260 to 295).\<close>

definition service_device :: "nat \<Rightarrow> tlx00 \<Rightarrow> error option \<times> tlx00" where
  "service_device d st =
     (case (if clock st - lastTimeSync (dev st d) > 900 then setTime d st else (None, st)) of
        (Some e, st1) \<Rightarrow> (Some e, st1)
      | (None, st1) \<Rightarrow>
          poll_device d
            (if clock st1 - lastTimeDelete (dev st1 d) > 86400
             then deleteDeviceData d st1 else st1))"

lemma service_device_devices:
  "length (devices (snd (service_device d st))) \<le> length (devices st)"
proof -
  obtain r st1 where 1: "(if clock st - lastTimeSync (dev st d) > 900 then setTime d st else (None, st)) = (r, st1)"
    by (cases "(if clock st - lastTimeSync (dev st d) > 900 then setTime d st else (None, st))") auto
  then have d1: "devices st1 = devices st"
    using setTime_devicesD [of d st r st1] by (auto split: if_splits)
  show ?thesis
  proof (cases r)
    case None
    let ?st2 = "if clock st1 - lastTimeDelete (dev st1 d) > 86400
             then deleteDeviceData d st1 else st1"
    have "devices ?st2 = devices st" using d1 by simp
    with poll_device_devices [of d ?st2] 1 None show ?thesis
      by (simp add: service_device_def)
  next
    case (Some e)
    with 1 d1 show ?thesis by (simp add: service_device_def)
  qed
qed

text \<open>
  \<open>for dev in self.devices\<close> (line 259): the iterator keeps the index \<open>i\<close> of the next
  element and stops when the index reaches the current length of the list, which the
  body may have shortened.
\<close>

function for_devices :: "nat \<Rightarrow> tlx00 \<Rightarrow> error option \<times> tlx00" where
  "for_devices i st =
     (if i < length (devices st) then
        (case service_device (devices st ! i) st of
           (Some e, st') \<Rightarrow> (Some e, st')
         | (None, st') \<Rightarrow> for_devices (Suc i) st')
      else (None, st))"
  by pat_completeness auto
termination
proof (relation "measure (\<lambda>(i, st). length (devices st) - i)", goal_cases)
  case 1
  show ?case by simp
next
  case (2 i st x st')
  then have "service_device (devices st ! i) st = (None, st')" by simp
  with service_device_devices [of "devices st ! i" st]
  have "length (devices st') \<le> length (devices st)" by simp
  with 2 show ?case by simp
qed

declare for_devices.simps [simp del]

subsection \<open>Device discovery\<close>

text \<open>
  \<open>checkForNewDevices\<close> and \<open>findDevices\<close>; \<open>attached\<close> is what
  \<open>usb.core.find(find_all=True, ...)\<close> enumerates. \<open>findDevices\<close> replaces the device
  list by new device objects with zeroed attributes and no endpoint addresses yet (its
  result \<open>True\<close> is not used by the loop).
\<close>

definition checkForNewDevices :: "tlx00 \<Rightarrow> bool \<times> tlx00" where
  "checkForNewDevices st =
     (let st1 = st\<lparr>lastDeviceCheck := clock st\<rparr>
      in (length (attached st1) \<noteq> length (devices st1), st1))"

definition findDevices :: "tlx00 \<Rightarrow> tlx00" where
  "findDevices st =
     (let st1 = st\<lparr>lastDeviceCheck := clock st\<rparr>;
          st2 = st1\<lparr>devices := attached st1\<rparr>
      in st2\<lparr>dev := (\<lambda>d. if d \<in> set (devices st2)
                          then \<lparr>lastTimeDataRead = 0, deviceErrors = 0, lastTimeSync = 0,
                                lastTimeDelete = 0, outAddress = None, inAddress = None\<rparr>
                          else dev st2 d)\<rparr>)"

text \<open>
  The \<open>except\<close> block of \<open>initializeDevices\<close> (lines 147 to 154): the error is logged,
  a failing \<open>reset\<close> is swallowed, and the device is removed from the list.
\<close>

definition init_failed :: "nat \<Rightarrow> tlx00 \<Rightarrow> error option \<times> tlx00" where
  "init_failed d st =
     (let st1 = st\<lparr>logged := logged st @ [ErrorInitializing d]\<rparr>
      in if d \<in> set (devices st1)
         then (None, st1\<lparr>devices := remove1 d (devices st1)\<rparr>)
         else (Some ValueError, st1))"

text \<open>
  Lines 137 to 143 of \<open>initializeDevices\<close>: the device is configured and its bulk
  endpoints are looked up. \<open>configuration st d\<close> is \<open>None\<close> when configuring the
  device raises; otherwise it holds the addresses of the OUT and IN endpoints that
  \<open>find_descriptor\<close> finds, where an endpoint that is not found makes the assignment of
  its address raise.
\<close>

definition configure_device :: "nat \<Rightarrow> tlx00 \<Rightarrow> error option \<times> tlx00" where
  "configure_device d st =
     (case configuration st d of
        None \<Rightarrow> (Some USBError, st)
      | Some (epo, epi) \<Rightarrow>
          (case epo of
             None \<Rightarrow> (Some AttributeError, st)
           | Some out \<Rightarrow>
               (let st1 = st\<lparr>dev := (dev st)(d := (dev st d)\<lparr>outAddress := Some out\<rparr>)\<rparr>
                in case epi of
                     None \<Rightarrow> (Some AttributeError, st1)
                   | Some inn \<Rightarrow>
                       (None, st1\<lparr>dev := (dev st1)(d := (dev st1 d)\<lparr>inAddress := Some inn\<rparr>)\<rparr>))))"

lemma configure_device_devices: "devices (snd (configure_device d st)) = devices st"
  by (simp add: configure_device_def Let_def split: option.splits prod.splits)

text \<open>
  The \<open>try\<close> block of \<open>initializeDevices\<close>, lines 137 to 146: \<open>setTime\<close> belongs to
  it.
\<close>

definition try_initialize :: "nat \<Rightarrow> tlx00 \<Rightarrow> error option \<times> tlx00" where
  "try_initialize d st =
     (case configure_device d st of
        (Some e, st1) \<Rightarrow> (Some e, st1)
      | (None, st1) \<Rightarrow> setTime d st1)"

lemma try_initialize_devices: "devices (snd (try_initialize d st)) = devices st"
proof (cases "configure_device d st")
  case (Pair r st1)
  with configure_device_devices [of d st] have "devices st1 = devices st" by simp
  with Pair setTime_devices [of d st1] show ?thesis
    by (cases r) (simp_all add: try_initialize_def)
qed

text \<open>\<open>initializeDevices\<close>: \<open>for d in self.devices\<close> with the index \<open>i\<close>.\<close>

function initializeDevices_from :: "nat \<Rightarrow> tlx00 \<Rightarrow> error option \<times> tlx00" where
  "initializeDevices_from i st =
     (if i < length (devices st) then
        (let d = devices st ! i in
         case try_initialize d st of
           (None, st1) \<Rightarrow> initializeDevices_from (Suc i) st1
         | (Some e, st1) \<Rightarrow>
             (case init_failed d st1 of
                (None, st2) \<Rightarrow> initializeDevices_from (Suc i) st2
              | (Some e', st2) \<Rightarrow> (Some e', st2)))
      else (None, st))"
  by pat_completeness auto
termination
proof (relation "measure (\<lambda>(i, st). length (devices st) - i)", goal_cases)
  case 1
  show ?case by simp
next
  case (2 i st d x st1)
  then have "try_initialize d st = (None, st1)" by simp
  then have "devices st1 = devices st"
    using try_initialize_devices [of d st] by simp
  with 2 show ?case by simp
next
  case (3 i st d x st1 e x' st2)
  then have "try_initialize d st = (Some e, st1)" by simp
  then have "devices st1 = devices st"
    using try_initialize_devices [of d st] by simp
  moreover have "length (devices st2) \<le> length (devices st1)"
    using 3 by (auto simp: init_failed_def Let_def length_remove1 split: if_splits)
  ultimately show ?case using 3 by simp
qed

declare initializeDevices_from.simps [simp del]

definition initializeDevices :: "tlx00 \<Rightarrow> error option \<times> tlx00" where
  "initializeDevices st = initializeDevices_from 0 st"

subsection \<open>The acquisition loop\<close>

text \<open>
  The body of \<open>while len(self.listeners) > 0\<close>: one pass over the devices,
  \<open>time.sleep(4)\<close>, and the check for new devices at most every 60 seconds.
\<close>

definition cycle :: "tlx00 \<Rightarrow> error option \<times> tlx00" where
  "cycle st =
     (case for_devices 0 st of
        (Some e, st1) \<Rightarrow> (Some e, st1)
      | (None, st1) \<Rightarrow>
          (let st2 = st1\<lparr>clock := clock st1 + 4\<rparr>
           in if clock st2 > lastDeviceCheck st2 + 60 then
                (case checkForNewDevices st2 of
                   (True, st3) \<Rightarrow> initializeDevices (findDevices st3)
                 | (False, st3) \<Rightarrow> (None, st3))
              else (None, st2)))"

text \<open>
  The \<open>while\<close> loop itself. It need not terminate, so the result is optional:
  \<open>None\<close> stands for a loop that runs forever.
\<close>

partial_function (option) loop_while :: "tlx00 \<Rightarrow> (error option \<times> tlx00) option" where
  "loop_while st =
     (if length (listeners st) > 0
      then (case cycle st of
              (Some e, st') \<Rightarrow> Some (Some e, st')
            | (None, st') \<Rightarrow> loop_while st')
      else Some (None, st))"

definition loop :: "tlx00 \<Rightarrow> (error option \<times> tlx00) option" where
  "loop st = loop_while (clearRequestBuffer st)"

section \<open>Properties of the acquisition loop\<close>

subsection \<open>Observations and example states\<close>

text \<open>The devices that were written to, in the order of the log.\<close>

fun written_to :: "usb_op list \<Rightarrow> nat list" where
  "written_to [] = []"
| "written_to (Write d buf # ops) = d # written_to ops"
| "written_to (Read d # ops) = written_to ops"

text \<open>
  \<open>n\<close> consecutive executions of the body of the \<open>while\<close> loop, stopping at an
  exception. The condition of the loop is not looked at.
\<close>

fun cycles :: "nat \<Rightarrow> tlx00 \<Rightarrow> error option \<times> tlx00" where
  "cycles 0 st = (None, st)"
| "cycles (Suc n) st =
     (case cycle st of (Some e, st') \<Rightarrow> (Some e, st') | (None, st') \<Rightarrow> cycles n st')"

text \<open>
  An initialized device whose time was set and whose flash was erased at the time of the
  clock of \<open>init_tlx00\<close>, so that no maintenance command is due; and a frame of 64 zero bytes,
  the "no new data" response.
\<close>

definition fresh_device :: device where
  "fresh_device = \<lparr>lastTimeDataRead = 0, deviceErrors = 0, lastTimeSync = 946681200,
                   lastTimeDelete = 946681200, outAddress = Some 1, inAddress = Some 129\<rparr>"

definition zero_frame :: "byte list" where
  "zero_frame = replicate 64 0"

text \<open>A frame whose first two bytes are zero and which holds a record after them.\<close>

definition frame_0_0_then_10 :: "byte list" where
  "frame_0_0_then_10 =
     0 # 0 # 10 # 5 # 0 # 0 # 42 # 16 # 0 # 0 # 0 # 99 # 255 # replicate 51 0"

text \<open>
  A frame with two records of 9 bytes: sensor 4 with raw value 42, then sensor 7 with raw
  value 43.
\<close>

definition frame_4_then_7 :: "byte list" where
  "frame_4_then_7 =
     9 # 4 # 0 # 0 # 42 # 16 # 0 # 0 # 0 # 9 # 7 # 0 # 0 # 43 # 17 # 0 # 0 # 0 # 255 #
     replicate 45 0"

text \<open>
  Two devices and one listener that unregisters itself on the first data point it gets.
  Device 0 answers a frame with a record, then "no new data"; device 1 answers "no new
  data".
\<close>

definition quitting_listener_state :: tlx00 where
  "quitting_listener_state =
     init_tlx00\<lparr>devices := [0, 1], listeners := [7], dev := (\<lambda>d. fresh_device),
                attached := [0, 1],
                replies := (\<lambda>d. if d = 0 then [Frame frame_10, Frame zero_frame]
                                 else [Frame zero_frame]),
                onNewData := (\<lambda>l dp. Unregisters)\<rparr>"

text \<open>One device with three errors counted, whose next response starts with two zero bytes.\<close>

definition poll_zero_state :: tlx00 where
  "poll_zero_state =
     init_tlx00\<lparr>devices := [0], listeners := [7],
                dev := (\<lambda>d. fresh_device\<lparr>deviceErrors := 3\<rparr>),
                replies := (\<lambda>d. [Frame frame_0_0_then_10])\<rparr>"

text \<open>
  Two devices: device 0 has ten errors counted, does not answer and cannot be configured;
  device 1 is healthy and has a frame with a record to deliver.
\<close>

definition failing_first_state :: tlx00 where
  "failing_first_state =
     init_tlx00\<lparr>devices := [0, 1], listeners := [7],
                dev := (\<lambda>d. if d = 0 then fresh_device\<lparr>deviceErrors := 10\<rparr> else fresh_device),
                attached := [0, 1],
                configuration := (\<lambda>d. if d = 0 then None else Some (Some 1, Some 129)),
                replies := (\<lambda>d. if d = 0 then [] else [Frame frame_10, Frame zero_frame])\<rparr>"

text \<open>
  Detection of unknown sensors is disabled and the registry knows sensor 4 only; the
  device answers the frame with the records of sensors 4 and 7.
\<close>

definition no_detection_state :: tlx00 where
  "no_detection_state =
     init_tlx00\<lparr>devices := [0], listeners := [7], detectUnknownSensors := False,
                sensors := [4 \<mapsto> ArexxTemperatureSensor 4 ''TSN-50E'' ''Room''],
                dev := (\<lambda>d. fresh_device),
                replies := (\<lambda>d. [Frame frame_4_then_7, Frame zero_frame])\<rparr>"

text \<open>
  Two listeners, of which listener 1 raises on every data point and listener 2 returns;
  the device answers a frame with one record.
\<close>

definition faulty_listener_state :: tlx00 where
  "faulty_listener_state =
     init_tlx00\<lparr>devices := [0], listeners := [1, 2],
                dev := (\<lambda>d. fresh_device),
                replies := (\<lambda>d. [Frame frame_10, Frame zero_frame]),
                onNewData := (\<lambda>l dp. if l = 1 then Raises else Returns)\<rparr>"

text \<open>
  Three listeners, of which listener 1 raises on the data points of sensor 7 only; the
  device answers the frame with the records of sensors 4 and 7, which detection turns
  into the data points \<open>dp_4\<close> and \<open>dp_7\<close>.
\<close>

definition late_fault_state :: tlx00 where
  "late_fault_state =
     init_tlx00\<lparr>devices := [0], listeners := [2, 1, 3],
                dev := (\<lambda>d. fresh_device),
                replies := (\<lambda>d. [Frame frame_4_then_7, Frame zero_frame]),
                onNewData := (\<lambda>l dp. if l = 1 \<and> sensorid dp = 7 then Raises else Returns)\<rparr>"

definition dp_4 :: datapoint where
  "dp_4 = \<lparr>sensorid = 4, rawvalue = 42, timestamp = 946681216, signal = None,
           sensor = ArexxTemperatureSensor 4 ''Unknown'' ''Unknown''\<rparr>"

definition dp_7 :: datapoint where
  "dp_7 = \<lparr>sensorid = 7, rawvalue = 43, timestamp = 946681217, signal = None,
           sensor = ArexxHumiditySensor 7 ''Unknown'' ''Unknown''\<rparr>"

text \<open>
  One device with three errors counted, which answers a frame with a record and then
  "no new data"; the listener returns normally.
\<close>

definition steady_state :: tlx00 where
  "steady_state =
     init_tlx00\<lparr>devices := [0], listeners := [7],
                dev := (\<lambda>d. fresh_device\<lparr>deviceErrors := 3\<rparr>),
                replies := (\<lambda>d. [Frame frame_10, Frame zero_frame])\<rparr>"

text \<open>Two devices, of which device 0 never answers.\<close>

definition dead_device_state :: tlx00 where
  "dead_device_state =
     init_tlx00\<lparr>devices := [0, 1], listeners := [7], dev := (\<lambda>d. fresh_device),
                attached := [0, 1],
                replies := (\<lambda>d. if d = 0 then [] else [Frame zero_frame])\<rparr>"

subsection \<open>Listener fan-out\<close>

lemma notify_returns_step:
  "i < length (listeners st) \<Longrightarrow> onNewData st (listeners st ! i) dp = Returns \<Longrightarrow>
   notify_listeners dp i st =
     notify_listeners dp (Suc i) (st\<lparr>delivered := delivered st @ [(listeners st ! i, dp)]\<rparr>)"
  by (subst notify_listeners.simps) (simp add: Let_def)

lemma notify_raises_step:
  "i < length (listeners st) \<Longrightarrow> onNewData st (listeners st ! i) dp = Raises \<Longrightarrow>
   notify_listeners dp i st = (Some ListenerException, st)"
  by (subst notify_listeners.simps) (simp add: Let_def)

lemma notify_done: "\<not> i < length (listeners st) \<Longrightarrow> notify_listeners dp i st = (None, st)"
  by (subst notify_listeners.simps) simp

lemma notify_until_fault:
  assumes "k < length (listeners st)" and "onNewData st (listeners st ! k) dp = Raises"
    and "\<forall>m. j \<le> m \<and> m < k \<longrightarrow> onNewData st (listeners st ! m) dp = Returns"
    and "j \<le> k"
  shows "notify_listeners dp j st =
     (Some ListenerException,
      st\<lparr>delivered := delivered st @ map (\<lambda>l. (l, dp)) (drop j (take k (listeners st)))\<rparr>)"
  using assms
proof (induction "k - j" arbitrary: j st)
  case 0
  then have "j = k" by simp
  with 0 show ?case by (simp add: notify_raises_step)
next
  case (Suc n)
  then have j: "j < k" by simp
  let ?st = "st\<lparr>delivered := delivered st @ [(listeners st ! j, dp)]\<rparr>"
  have r: "onNewData st (listeners st ! j) dp = Returns" using Suc.prems(3) j by simp
  have step: "notify_listeners dp j st = notify_listeners dp (Suc j) ?st"
    using j Suc.prems(1) r by (intro notify_returns_step) simp_all
  have "notify_listeners dp (Suc j) ?st =
     (Some ListenerException,
      ?st\<lparr>delivered := delivered ?st @ map (\<lambda>l. (l, dp)) (drop (Suc j) (take k (listeners ?st)))\<rparr>)"
    using Suc.hyps(2) Suc.prems j by (intro Suc.hyps(1)) simp_all
  moreover have "drop j (take k (listeners st)) =
      listeners st ! j # drop (Suc j) (take k (listeners st))"
    using j Suc.prems(1) by (simp add: Cons_nth_drop_Suc [symmetric])
  ultimately show ?case using step by simp
qed

lemma notify_all_return:
  assumes "\<forall>m. j \<le> m \<and> m < length (listeners st) \<longrightarrow>
      onNewData st (listeners st ! m) dp = Returns"
  shows "notify_listeners dp j st =
     (None, st\<lparr>delivered := delivered st @ map (\<lambda>l. (l, dp)) (drop j (listeners st))\<rparr>)"
  using assms
proof (induction "length (listeners st) - j" arbitrary: j st)
  case 0
  then show ?case by (simp add: notify_done)
next
  case (Suc n)
  then have j: "j < length (listeners st)" by simp
  let ?st = "st\<lparr>delivered := delivered st @ [(listeners st ! j, dp)]\<rparr>"
  have r: "onNewData st (listeners st ! j) dp = Returns" using Suc.prems j by simp
  have step: "notify_listeners dp j st = notify_listeners dp (Suc j) ?st"
    using j r by (rule notify_returns_step)
  have "notify_listeners dp (Suc j) ?st =
     (None, ?st\<lparr>delivered := delivered ?st @ map (\<lambda>l. (l, dp)) (drop (Suc j) (listeners ?st))\<rparr>)"
    using Suc.hyps(2) Suc.prems by (intro Suc.hyps(1)) simp_all
  moreover have "drop j (listeners st) = listeners st ! j # drop (Suc j) (listeners st)"
    using j by (simp add: Cons_nth_drop_Suc)
  ultimately show ?case using step by simp
qed

lemma publish_until_fault:
  assumes "\<forall>dp' \<in> set pre. \<forall>l \<in> set (listeners st). onNewData st l dp' = Returns"
    and "k < length (listeners st)" and "onNewData st (listeners st ! k) dp = Raises"
    and "\<forall>m<k. onNewData st (listeners st ! m) dp = Returns"
  shows "publish (pre @ dp # post) st =
     (Some ListenerException,
      st\<lparr>delivered := delivered st @
            concat (map (\<lambda>dp'. map (\<lambda>l. (l, dp')) (listeners st)) pre) @
            map (\<lambda>l. (l, dp)) (take k (listeners st))\<rparr>)"
  using assms
proof (induction pre arbitrary: st)
  case Nil
  have "notify_listeners dp 0 st =
     (Some ListenerException,
      st\<lparr>delivered := delivered st @ map (\<lambda>l. (l, dp)) (drop 0 (take k (listeners st)))\<rparr>)"
    using Nil.prems by (intro notify_until_fault) simp_all
  then show ?case by simp
next
  case (Cons a pre)
  let ?st = "st\<lparr>delivered := delivered st @ map (\<lambda>l. (l, a)) (listeners st)\<rparr>"
  have "notify_listeners a 0 st =
     (None, st\<lparr>delivered := delivered st @ map (\<lambda>l. (l, a)) (drop 0 (listeners st))\<rparr>)"
    using Cons.prems(1) by (intro notify_all_return) simp
  then have n: "notify_listeners a 0 st = (None, ?st)" by simp
  have "publish (pre @ dp # post) ?st =
     (Some ListenerException,
      ?st\<lparr>delivered := delivered ?st @
            concat (map (\<lambda>dp'. map (\<lambda>l. (l, dp')) (listeners ?st)) pre) @
            map (\<lambda>l. (l, dp)) (take k (listeners ?st))\<rparr>)"
    using Cons.prems by (intro Cons.IH) simp_all
  with n show ?case by simp
qed

lemma on_poll_exception_member:
  assumes "d \<in> set (devices st)"
  shows "on_poll_exception d e st =
     (None,
      st\<lparr>logged := logged st @ UnableToReadNewData e #
              (if deviceErrors (dev st d) + 1 > 10 then [TooManyErrors d] else []),
         dev := (dev st)(d := (dev st d)\<lparr>deviceErrors := deviceErrors (dev st d) + 1\<rparr>),
         devices := (if deviceErrors (dev st d) + 1 > 10 then remove1 d (devices st)
                     else devices st)\<rparr>)"
  using assms by (simp add: on_poll_exception_def Let_def)

text \<open>
  C1, counterexample. Listeners 1 and 2 are registered, the frame yields one data point,
  listener 1 raises on it and listener 2 would return normally. After the poll nothing has
  been delivered: listener 2 did not receive the data point. The fault was logged by the
  handler of the poll and did not leave it.
\<close>

theorem listener_fault_stops_fan_out:
  "listeners faulty_listener_state = [1, 2] \<and>
   fst (parseData (stamp_data_read 0 (snd (usb_exchange 0 (poll_request faulty_listener_state))))
          frame_10) =
     Inr [\<lparr>sensorid = 5, rawvalue = 42, timestamp = 946681216, signal = Some 99,
            sensor = ArexxHumiditySensor 5 ''Unknown'' ''Unknown''\<rparr>] \<and>
   onNewData faulty_listener_state 1
     \<lparr>sensorid = 5, rawvalue = 42, timestamp = 946681216, signal = Some 99,
      sensor = ArexxHumiditySensor 5 ''Unknown'' ''Unknown''\<rparr> = Raises \<and>
   onNewData faulty_listener_state 2
     \<lparr>sensorid = 5, rawvalue = 42, timestamp = 946681216, signal = Some 99,
      sensor = ArexxHumiditySensor 5 ''Unknown'' ''Unknown''\<rparr> = Returns \<and>
   fst (poll_device 0 faulty_listener_state) = None \<and>
   delivered (snd (poll_device 0 faulty_listener_state)) = [] \<and>
   logged (snd (poll_device 0 faulty_listener_state)) = [UnableToReadNewData ListenerException]"
  by code_simp

text \<open>
  C1, amended. When a listener's \<open>onNewData\<close> raises on a data point of a response
  frame, the fault is caught by the exception handler of that device's poll and logged
  there, and it does not leave the poll, so the acquisition loop goes on. Delivery stops
  at the fault: the data points before it have reached every listener, the faulting data
  point has reached exactly the listeners registered before the faulting one, and neither
  the listeners after it nor the later data points of the frame are served. The handler
  counts the fault as an error of the device and ends the poll of that device for this
  cycle. (Stated for the first fault of a frame, the earlier calls returning normally.)
\<close>

theorem listener_fault_is_caught:
  assumes "initialized st d"
    and "replies st d = Frame f # rs" and "no_new_data f = Inr False"
    and "fst (parseData (stamp_data_read d (snd (usb_exchange d (poll_request st)))) f) =
           Inr (pre @ dp # post)"
    and "k < length (listeners st)" and "onNewData st (listeners st ! k) dp = Raises"
    and "\<forall>m<k. onNewData st (listeners st ! m) dp = Returns"
    and "\<forall>dp' \<in> set pre. \<forall>l \<in> set (listeners st). onNewData st l dp' = Returns"
    and "d \<in> set (devices st)"
  shows "fst (poll_device d st) = None \<and>
     delivered (snd (poll_device d st)) =
       delivered st @ concat (map (\<lambda>dp'. map (\<lambda>l. (l, dp')) (listeners st)) pre) @
       map (\<lambda>l. (l, dp)) (take k (listeners st)) \<and>
     logged (snd (poll_device d st)) =
       logged st @ UnableToReadNewData ListenerException #
         (if deviceErrors (dev st d) + 1 > 10 then [TooManyErrors d] else []) \<and>
     deviceErrors (dev (snd (poll_device d st)) d) = deviceErrors (dev st d) + 1 \<and>
     replies (snd (poll_device d st)) d = rs"
proof -
  let ?st1 = "(poll_request st)\<lparr>replies := (replies st)(d := rs),
                usb_log := usb_log st @ [Write d (requestBuffer (poll_request st)), Read d]\<rparr>"
  have "usb_exchange d (poll_request st) = (Inr f, ?st1)"
    using assms(1,2) by (simp add: frame_exchange)
  moreover have "replies ?st1 d = rs" by simp
  ultimately obtain st1 where ex: "usb_exchange d (poll_request st) = (Inr f, st1)"
    and r1: "replies st1 d = rs" by blast
  note f1 = usb_exchange_fields [OF ex]
  obtain st3 where pa: "parseData (stamp_data_read d st1) f = (Inr (pre @ dp # post), st3)"
    using assms(4) ex by (cases "parseData (stamp_data_read d st1) f") auto
  note f3 = parseData_fields [OF pa]
  have l3: "listeners st3 = listeners st" "onNewData st3 = onNewData st"
    "delivered st3 = delivered st" "devices st3 = devices st" "logged st3 = logged st"
    "replies st3 d = rs"
    using f1 f3 r1 by (simp_all add: stamp_data_read_def)
  have d3: "deviceErrors (dev st3 d) = deviceErrors (dev st d)"
    using f1(7) f3(6) by (simp add: stamp_data_read_def)
  let ?st4 = "st3\<lparr>delivered := delivered st3 @
            concat (map (\<lambda>dp'. map (\<lambda>l. (l, dp')) (listeners st3)) pre) @
            map (\<lambda>l. (l, dp)) (take k (listeners st3))\<rparr>"
  have pu: "publish (pre @ dp # post) st3 = (Some ListenerException, ?st4)"
    using assms(5-8) l3(1,2) by (intro publish_until_fault) simp_all
  have "poll_device d st = on_poll_exception d ListenerException ?st4"
    by (rule poll_publish_fails [OF ex assms(3) pa pu])
  moreover have "d \<in> set (devices ?st4)" using assms(9) l3(4) by simp
  ultimately show ?thesis
    using l3 d3 by (simp add: on_poll_exception_member)
qed

text \<open>
  Listeners 2, 1 and 3 are registered and the frame yields the data points of sensors 4
  and 7. Listener 1 raises on the second one: all three listeners have received the
  first data point, listener 2 has received the second, and listener 3 has not. The
  fault is logged, one error is counted, and the poll ends with the next response of the
  device still unread.
\<close>

theorem listener_fault_is_caught_witness:
  "fst (poll_device 0 late_fault_state) = None \<and>
   delivered (snd (poll_device 0 late_fault_state)) =
     [(2, dp_4), (1, dp_4), (3, dp_4), (2, dp_7)] \<and>
   logged (snd (poll_device 0 late_fault_state)) = [UnableToReadNewData ListenerException] \<and>
   deviceErrors (dev (snd (poll_device 0 late_fault_state)) 0) = 1 \<and>
   replies (snd (poll_device 0 late_fault_state)) 0 = [Frame zero_frame]"
proof -
  have 0: "initialized late_fault_state 0"
    by (simp add: late_fault_state_def initialized_def fresh_device_def)
  have 1: "replies late_fault_state 0 = Frame frame_4_then_7 # [Frame zero_frame]"
    by (simp add: late_fault_state_def)
  have 2: "no_new_data frame_4_then_7 = Inr False" by code_simp
  have 3: "fst (parseData (stamp_data_read 0 (snd (usb_exchange 0 (poll_request late_fault_state))))
              frame_4_then_7) = Inr ([dp_4] @ dp_7 # [])"
    by code_simp
  have 4: "1 < length (listeners late_fault_state)"
    "onNewData late_fault_state (listeners late_fault_state ! 1) dp_7 = Raises"
    by (simp_all add: late_fault_state_def dp_7_def)
  have 5: "\<forall>m<1. onNewData late_fault_state (listeners late_fault_state ! m) dp_7 = Returns"
    by (simp add: late_fault_state_def)
  have 6: "\<forall>dp' \<in> set [dp_4]. \<forall>l \<in> set (listeners late_fault_state).
      onNewData late_fault_state l dp' = Returns"
    by (simp add: late_fault_state_def dp_4_def)
  have 7: "0 \<in> set (devices late_fault_state)" by (simp add: late_fault_state_def)
  have 8: "delivered late_fault_state = []" "logged late_fault_state = []"
    "deviceErrors (dev late_fault_state 0) = 0" "listeners late_fault_state = [2, 1, 3]"
    by (simp_all add: late_fault_state_def init_tlx00_def fresh_device_def)
  from listener_fault_is_caught [OF 0 1 2 3 4 5 6 7] 8 show ?thesis by simp
qed

subsection \<open>Unknown sensors with detection disabled\<close>

text \<open>
  C2, the code at a failing input. Detection is disabled, the registry knows sensor 4, and
  the frame holds a record of sensor 4 followed by a record of sensor 7. \<open>parseData\<close>
  raises \<open>KeyError\<close> at the second record and returns no record at all, so the record
  of sensor 4 is lost with it: nothing is delivered. The handler of the poll logs the
  exception, counts it as an error of the device and ends the poll of the device for
  this cycle, with the next response still unread.
\<close>

theorem unknown_sensor_drops_frame:
  "fst (parseData no_detection_state frame_4_then_7) = Inl KeyError \<and>
   fst (poll_device 0 no_detection_state) = None \<and>
   delivered (snd (poll_device 0 no_detection_state)) = [] \<and>
   logged (snd (poll_device 0 no_detection_state)) = [UnableToReadNewData KeyError] \<and>
   deviceErrors (dev (snd (poll_device 0 no_detection_state)) 0) = 1 \<and>
   replies (snd (poll_device 0 no_detection_state)) 0 = [Frame zero_frame]"
  by code_simp

subsection \<open>Removal of a device during the pass over the devices\<close>

text \<open>
  C3, the code at a failing input. Device 0 fails for the eleventh time and is removed
  from the list inside the \<open>for\<close> loop; the pass then ends, and device 1, which was in
  the list at the start of the pass, is not served in it: nothing is written to it and
  its pending record is not delivered. \<open>initializeDevices\<close> removes in the same way:
  after a new enumeration of devices 0 and 1, device 0 cannot be configured and is
  removed, and device 1 stays in the list without ever being initialized (it has no
  endpoint address and its time is not set).
\<close>

theorem removal_skips_next_device:
  "devices failing_first_state = [0, 1] \<and>
   fst (for_devices 0 failing_first_state) = None \<and>
   devices (snd (for_devices 0 failing_first_state)) = [1] \<and>
   written_to (usb_log (snd (for_devices 0 failing_first_state))) = [0] \<and>
   delivered (snd (for_devices 0 failing_first_state)) = [] \<and>
   devices (findDevices failing_first_state) = [0, 1] \<and>
   fst (initializeDevices (findDevices failing_first_state)) = None \<and>
   devices (snd (initializeDevices (findDevices failing_first_state))) = [1] \<and>
   outAddress (dev (snd (initializeDevices (findDevices failing_first_state))) 1) = None \<and>
   written_to (usb_log (snd (initializeDevices (findDevices failing_first_state)))) = []"
  by code_simp

subsection \<open>The "no new data" response\<close>

text \<open>
  C4, counterexample. \<open>parseData\<close> does not look for two leading zero bytes: on a
  frame of 64 bytes that starts with two zeros and holds a record after them it returns
  that record.
\<close>

theorem parse_ignores_leading_zeros:
  "length frame_0_0_then_10 = 64 \<and> frame_0_0_then_10 ! 0 = 0 \<and> frame_0_0_then_10 ! 1 = 0 \<and>
   fst (parseData init_tlx00 frame_0_0_then_10) =
     Inr [\<lparr>sensorid = 5, rawvalue = 42, timestamp = 946681216, signal = Some 99,
            sensor = ArexxHumiditySensor 5 ''Unknown'' ''Unknown''\<rparr>]"
  by (simp add: frame_0_0_then_10_def parseData_def parse_loop.simps getitem_def read_fields_def
        from_bytes_big_def Let_def detect_sensor_def addSensor_def init_tlx00_def TIME_OFFSET_def)

text \<open>
  C4, amended. When the response frame of a poll has 64 bytes of which the first two are
  zero, the poll of that device ends at once, whatever the other 62 bytes are:
  \<open>parseData\<close> is not called, so no record is produced or published, and the
  registry, the attributes of the devices and the error log stay as they are. Only the
  exchange itself has happened. (The test is made by the loop, not by the parser.)
\<close>

theorem no_new_data_short_circuits:
  assumes "initialized st d"
    and "replies st d = Frame f # rs" and "length f = 64" and "f ! 0 = 0" and "f ! 1 = 0"
  shows "poll_device d st =
      (None, (poll_request st)\<lparr>replies := (replies st)(d := rs),
                usb_log := usb_log st @ [Write d (requestBuffer (poll_request st)), Read d]\<rparr>) \<and>
     delivered (snd (poll_device d st)) = delivered st \<and>
     sensors (snd (poll_device d st)) = sensors st \<and>
     dev (snd (poll_device d st)) = dev st \<and>
     logged (snd (poll_device d st)) = logged st"
proof -
  let ?st1 = "(poll_request st)\<lparr>replies := (replies st)(d := rs),
                usb_log := usb_log st @ [Write d (requestBuffer (poll_request st)), Read d]\<rparr>"
  have ex: "usb_exchange d (poll_request st) = (Inr f, ?st1)"
    using assms(1,2) by (simp add: frame_exchange)
  have nd: "no_new_data f = Inr True"
    using assms(3-5) by (simp add: no_new_data_def getitem_def)
  have "poll_device d st = (None, ?st1)" by (rule poll_no_new_data [OF ex nd])
  then show ?thesis by simp
qed

text \<open>
  The response starts with two zeros and holds a record after them: the poll ends
  without a delivery and without a sensor being added to the registry.
\<close>

theorem no_new_data_short_circuits_witness:
  "fst (poll_device 0 poll_zero_state) = None \<and>
   delivered (snd (poll_device 0 poll_zero_state)) = [] \<and>
   sensors (snd (poll_device 0 poll_zero_state)) = Map.empty \<and>
   replies (snd (poll_device 0 poll_zero_state)) 0 = []"
proof -
  have 0: "initialized poll_zero_state 0"
    by (simp add: poll_zero_state_def initialized_def fresh_device_def)
  have 1: "replies poll_zero_state 0 = Frame frame_0_0_then_10 # []"
    by (simp add: poll_zero_state_def init_tlx00_def)
  have 2: "length frame_0_0_then_10 = 64" "frame_0_0_then_10 ! 0 = 0" "frame_0_0_then_10 ! 1 = 0"
    by (simp_all add: frame_0_0_then_10_def)
  have 3: "delivered poll_zero_state = []" "sensors poll_zero_state = Map.empty"
    by (simp_all add: poll_zero_state_def init_tlx00_def)
  from no_new_data_short_circuits [OF 0 1 2] 3 show ?thesis by simp
qed

subsection \<open>The error counter of a device\<close>

lemma dead_device_exchange:
  assumes "replies st d = []"
  shows "\<exists>e st1. usb_exchange d (poll_request st) = (Inl e, st1) \<and>
     devices st1 = devices st \<and> dev st1 = dev st \<and> replies st1 = replies st"
  using assms by (auto simp: usb_exchange_def split: option.splits)

lemma dead_device_poll:
  assumes "replies st d = []" and "d \<in> set (devices st)"
  shows "devices (snd (poll_device d st)) =
       (if deviceErrors (dev st d) + 1 > 10 then remove1 d (devices st) else devices st)"
    and "deviceErrors (dev (snd (poll_device d st)) d) = deviceErrors (dev st d) + 1"
    and "replies (snd (poll_device d st)) d = []"
proof -
  from dead_device_exchange [OF assms(1)] obtain e st1
    where ex: "usb_exchange d (poll_request st) = (Inl e, st1)"
      and f: "devices st1 = devices st" "dev st1 = dev st" "replies st1 = replies st"
    by blast
  have p: "poll_device d st = on_poll_exception d e st1"
    by (rule poll_exchange_fails [OF ex])
  have m: "d \<in> set (devices st1)" using assms(2) f(1) by simp
  show "devices (snd (poll_device d st)) =
       (if deviceErrors (dev st d) + 1 > 10 then remove1 d (devices st) else devices st)"
    unfolding p on_poll_exception_member [OF m] using f by simp
  show "deviceErrors (dev (snd (poll_device d st)) d) = deviceErrors (dev st d) + 1"
    unfolding p on_poll_exception_member [OF m] using f by simp
  show "replies (snd (poll_device d st)) d = []"
    unfolding p on_poll_exception_member [OF m] using assms(1) f by simp
qed

lemma dead_device_polls:
  assumes "replies st d = []" and "d \<in> set (devices st)"
    and "deviceErrors (dev st d) + int n \<le> 10"
  shows "devices (((\<lambda>s. snd (poll_device d s)) ^^ n) st) = devices st \<and>
     deviceErrors (dev (((\<lambda>s. snd (poll_device d s)) ^^ n) st) d) = deviceErrors (dev st d) + int n \<and>
     replies (((\<lambda>s. snd (poll_device d s)) ^^ n) st) d = []"
  using assms(3)
proof (induction n)
  case 0
  with assms(1) show ?case by simp
next
  case (Suc n)
  let ?s = "((\<lambda>s. snd (poll_device d s)) ^^ n) st"
  from Suc have IH: "devices ?s = devices st"
    "deviceErrors (dev ?s d) = deviceErrors (dev st d) + int n" "replies ?s d = []"
    by simp_all
  have m: "d \<in> set (devices ?s)" using IH(1) assms(2) by simp
  from dead_device_poll [OF IH(3) m] IH Suc.prems show ?case by simp
qed

text \<open>
  C8, counterexample. The device has three errors counted and its exchange succeeds
  (write and read are performed, nothing is logged), but the response is "no new data":
  the counter is still three afterwards, not zero.
\<close>

theorem no_new_data_keeps_error_count:
  "usb_log (snd (poll_device 0 poll_zero_state)) =
     [Write 0 (requestBuffer (poll_request poll_zero_state)), Read 0] \<and>
   logged (snd (poll_device 0 poll_zero_state)) = [] \<and>
   deviceErrors (dev poll_zero_state 0) = 3 \<and>
   deviceErrors (dev (snd (poll_device 0 poll_zero_state)) 0) = 3"
  by code_simp

text \<open>
  C8, amended. For a device of the active list: a failed exchange of a data poll
  increments the error counter, and once the counter exceeds 10 the device is removed
  from the list, while the other devices stay in the list and their attributes are
  unchanged; an exchange that returns "no new data" leaves the counter as it is; an
  exchange whose response is parsed and delivered without an exception resets the
  counter to 0 before the next exchange. A device that never answers is, starting from
  a counter of 0, still in the list after 10 polls (with the counter at the number of
  polls) and removed by the eleventh.
\<close>

theorem error_counter_policy:
  assumes "d \<in> set (devices st)"
  shows "(\<forall>e st1. usb_exchange d (poll_request st) = (Inl e, st1) \<longrightarrow>
        fst (poll_device d st) = None \<and>
        deviceErrors (dev (snd (poll_device d st)) d) = deviceErrors (dev st d) + 1 \<and>
        devices (snd (poll_device d st)) =
          (if deviceErrors (dev st d) + 1 > 10 then remove1 d (devices st) else devices st) \<and>
        (\<forall>d'. d' \<noteq> d \<longrightarrow> dev (snd (poll_device d st)) d' = dev st d')) \<and>
     (\<forall>f st1. usb_exchange d (poll_request st) = (Inr f, st1) \<and> no_new_data f = Inr True \<longrightarrow>
        poll_device d st = (None, st1) \<and> dev st1 = dev st \<and> devices st1 = devices st) \<and>
     (\<forall>f st1 dps st3 st4. usb_exchange d (poll_request st) = (Inr f, st1) \<and>
        no_new_data f = Inr False \<and>
        parseData (stamp_data_read d st1) f = (Inr dps, st3) \<and> publish dps st3 = (None, st4) \<longrightarrow>
        poll_device d st = poll_device d (reset_errors d st4) \<and>
        deviceErrors (dev (reset_errors d st4) d) = 0 \<and>
        devices (reset_errors d st4) = devices st) \<and>
     (replies st d = [] \<and> deviceErrors (dev st d) = 0 \<longrightarrow>
        (\<forall>n\<le>10. devices (((\<lambda>s. snd (poll_device d s)) ^^ n) st) = devices st \<and>
           deviceErrors (dev (((\<lambda>s. snd (poll_device d s)) ^^ n) st) d) = int n) \<and>
        devices (((\<lambda>s. snd (poll_device d s)) ^^ 11) st) = remove1 d (devices st))"
proof (intro conjI allI impI)
  fix e st1
  assume ex: "usb_exchange d (poll_request st) = (Inl e, st1)"
  note f = usb_exchange_fields [OF ex]
  have m: "d \<in> set (devices st1)" using assms f(1) by simp
  have p: "poll_device d st = on_poll_exception d e st1" by (rule poll_exchange_fails [OF ex])
  show "fst (poll_device d st) = None"
    unfolding p on_poll_exception_member [OF m] by simp
  show "deviceErrors (dev (snd (poll_device d st)) d) = deviceErrors (dev st d) + 1"
    unfolding p on_poll_exception_member [OF m] using f(7) by simp
  show "devices (snd (poll_device d st)) =
          (if deviceErrors (dev st d) + 1 > 10 then remove1 d (devices st) else devices st)"
    unfolding p on_poll_exception_member [OF m] using f(1,7) by simp
  show "dev (snd (poll_device d st)) d' = dev st d'" if "d' \<noteq> d" for d'
    unfolding p on_poll_exception_member [OF m] using f(7) that by simp
next
  fix f st1
  assume a: "usb_exchange d (poll_request st) = (Inr f, st1) \<and> no_new_data f = Inr True"
  then show "poll_device d st = (None, st1)" by (simp add: poll_no_new_data)
  from a usb_exchange_fields(1,7) [of d "poll_request st" "Inr f" st1]
  show "dev st1 = dev st" "devices st1 = devices st" by simp_all
next
  fix f st1 dps st3 st4
  assume a: "usb_exchange d (poll_request st) = (Inr f, st1) \<and>
        no_new_data f = Inr False \<and>
        parseData (stamp_data_read d st1) f = (Inr dps, st3) \<and> publish dps st3 = (None, st4)"
  then show "poll_device d st = poll_device d (reset_errors d st4)"
    by (intro poll_continue [of d st f st1 dps st3 st4]) simp_all
  show "deviceErrors (dev (reset_errors d st4) d) = 0" by (simp add: reset_errors_def)
  from a have "devices st1 = devices st" "devices st3 = devices st1" "devices st4 = devices st3"
    using usb_exchange_fields(1) [of d "poll_request st" "Inr f" st1]
      parseData_fields(1) [of "stamp_data_read d st1" f "Inr dps" st3]
      publish_fields(1) [of dps st3 None st4]
    by (simp_all add: stamp_data_read_def)
  then show "devices (reset_errors d st4) = devices st" by (simp add: reset_errors_def)
next
  fix n :: nat
  assume a: "replies st d = [] \<and> deviceErrors (dev st d) = 0" and n: "n \<le> 10"
  from dead_device_polls [of st d n] a n assms
  show "devices (((\<lambda>s. snd (poll_device d s)) ^^ n) st) = devices st"
    "deviceErrors (dev (((\<lambda>s. snd (poll_device d s)) ^^ n) st) d) = int n"
    by simp_all
next
  assume a: "replies st d = [] \<and> deviceErrors (dev st d) = 0"
  let ?s = "((\<lambda>s. snd (poll_device d s)) ^^ 10) st"
  from dead_device_polls [of st d 10] a assms
  have s: "devices ?s = devices st" "deviceErrors (dev ?s d) = 10" "replies ?s d = []"
    by simp_all
  have m: "d \<in> set (devices ?s)" using s(1) assms by simp
  have "((\<lambda>s. snd (poll_device d s)) ^^ 11) st = snd (poll_device d ?s)"
    by (simp add: numeral_eq_Suc)
  with dead_device_poll(1) [OF s(3) m] s
  show "devices (((\<lambda>s. snd (poll_device d s)) ^^ 11) st) = remove1 d (devices st)" by simp
qed

text \<open>
  Device 0 of two devices never answers: after ten polls both devices are in the list
  and ten errors are counted, the eleventh poll removes device 0 and leaves device 1,
  whose attributes no poll of device 0 touches. A device with three errors counted
  keeps them over a "no new data" response, and has none left after a response with a
  record that is delivered.
\<close>

theorem error_counter_policy_witness:
  "devices (((\<lambda>s. snd (poll_device 0 s)) ^^ 10) dead_device_state) = [0, 1] \<and>
   deviceErrors (dev (((\<lambda>s. snd (poll_device 0 s)) ^^ 10) dead_device_state) 0) = 10 \<and>
   devices (((\<lambda>s. snd (poll_device 0 s)) ^^ 11) dead_device_state) = [1] \<and>
   fst (poll_device 0 dead_device_state) = None \<and>
   deviceErrors (dev (snd (poll_device 0 dead_device_state)) 0) = 1 \<and>
   dev (snd (poll_device 0 dead_device_state)) 1 = fresh_device \<and>
   deviceErrors (dev (snd (poll_device 0 poll_zero_state)) 0) = 3 \<and>
   deviceErrors (dev steady_state 0) = 3 \<and>
   deviceErrors (dev (snd (poll_device 0 steady_state)) 0) = 0"
proof -
  have m: "0 \<in> set (devices dead_device_state)" by (simp add: dead_device_state_def)
  have a: "replies dead_device_state 0 = []" "deviceErrors (dev dead_device_state 0) = 0"
    "devices dead_device_state = [0, 1]" "dev dead_device_state 1 = fresh_device"
    by (simp_all add: dead_device_state_def fresh_device_def)
  from dead_device_exchange [OF a(1)] obtain e st1
    where ex: "usb_exchange 0 (poll_request dead_device_state) = (Inl e, st1)"
    by blast
  from error_counter_policy [OF m] a ex
  have dead: "devices (((\<lambda>s. snd (poll_device 0 s)) ^^ 10) dead_device_state) = [0, 1] \<and>
   deviceErrors (dev (((\<lambda>s. snd (poll_device 0 s)) ^^ 10) dead_device_state) 0) = 10 \<and>
   devices (((\<lambda>s. snd (poll_device 0 s)) ^^ 11) dead_device_state) = [1] \<and>
   fst (poll_device 0 dead_device_state) = None \<and>
   deviceErrors (dev (snd (poll_device 0 dead_device_state)) 0) = 1 \<and>
   dev (snd (poll_device 0 dead_device_state)) 1 = fresh_device" by simp
  have mz: "0 \<in> set (devices poll_zero_state)" by (simp add: poll_zero_state_def)
  let ?z1 = "snd (usb_exchange 0 (poll_request poll_zero_state))"
  have "fst (usb_exchange 0 (poll_request poll_zero_state)) = Inr frame_0_0_then_10"
    by code_simp
  then have exz: "usb_exchange 0 (poll_request poll_zero_state) = (Inr frame_0_0_then_10, ?z1)"
    by (simp add: prod_eq_iff)
  have ndz: "no_new_data frame_0_0_then_10 = Inr True" by code_simp
  have dz: "deviceErrors (dev poll_zero_state 0) = 3"
    by (simp add: poll_zero_state_def fresh_device_def)
  from error_counter_policy [OF mz] exz ndz
  have "poll_device 0 poll_zero_state = (None, ?z1) \<and> dev ?z1 = dev poll_zero_state" by blast
  with dz have zero: "deviceErrors (dev (snd (poll_device 0 poll_zero_state)) 0) = 3" by simp
  have ms: "0 \<in> set (devices steady_state)" by (simp add: steady_state_def)
  let ?s1 = "snd (usb_exchange 0 (poll_request steady_state))"
  let ?p = "parseData (stamp_data_read 0 ?s1) frame_10"
  let ?dps = "[\<lparr>sensorid = 5, rawvalue = 42, timestamp = 946681216, signal = Some 99,
             sensor = ArexxHumiditySensor 5 ''Unknown'' ''Unknown''\<rparr>]"
  let ?s4 = "snd (publish ?dps (snd ?p))"
  have "fst (usb_exchange 0 (poll_request steady_state)) = Inr frame_10" by code_simp
  then have exs: "usb_exchange 0 (poll_request steady_state) = (Inr frame_10, ?s1)"
    by (simp add: prod_eq_iff)
  have nds: "no_new_data frame_10 = Inr False" by code_simp
  have "fst ?p = Inr ?dps" by code_simp
  then have pas: "?p = (Inr ?dps, snd ?p)" by (simp add: prod_eq_iff)
  have "fst (publish ?dps (snd ?p)) = None" by code_simp
  then have pus: "publish ?dps (snd ?p) = (None, ?s4)" by (simp add: prod_eq_iff)
  from error_counter_policy [OF ms] exs nds pas pus
  have "poll_device 0 steady_state = poll_device 0 (reset_errors 0 ?s4)" by blast
  moreover have "deviceErrors (dev (snd (poll_device 0 (reset_errors 0 ?s4))) 0) = 0"
    by code_simp
  ultimately have data: "deviceErrors (dev (snd (poll_device 0 steady_state)) 0) = 0" by simp
  have ds: "deviceErrors (dev steady_state 0) = 3"
    by (simp add: steady_state_def fresh_device_def)
  from dead zero ds data show ?thesis by blast
qed

subsection \<open>When the loop stops\<close>

lemma loop_while_cycles:
  "cycles n st = (None, st') \<Longrightarrow> listeners st' = [] \<Longrightarrow>
   \<forall>k<n. listeners (snd (cycles k st)) \<noteq> [] \<Longrightarrow>
   loop_while st = Some (None, st')"
proof (induction n arbitrary: st)
  case 0
  then show ?case by (simp add: loop_while.simps)
next
  case (Suc n)
  from Suc.prems(3) have ne: "listeners st \<noteq> []" by fastforce
  obtain r st1 where c: "cycle st = (r, st1)" by (cases "cycle st") auto
  with Suc.prems(1) have r: "r = None" and n: "cycles n st1 = (None, st')"
    by (cases r; simp)+
  have "\<forall>k<n. listeners (snd (cycles k st1)) \<noteq> []"
  proof (intro allI impI)
    fix k assume "k < n"
    then have "Suc k < Suc n" by simp
    with Suc.prems(3) have "listeners (snd (cycles (Suc k) st)) \<noteq> []" by blast
    with c r show "listeners (snd (cycles k st1)) \<noteq> []" by simp
  qed
  from Suc.IH [OF n Suc.prems(2) this] have "loop_while st1 = Some (None, st')" .
  with ne c r show ?case by (subst loop_while.simps) simp
qed

text \<open>
  C9. Called with no listener registered, \<open>loop\<close> returns at once, having cleared the
  request buffer and performed no transport operation. In general the condition is
  evaluated once per cycle, before the pass over the devices: if the list of listeners
  is empty for the first time after \<open>n\<close> complete cycles, \<open>loop\<close> returns the state
  reached after exactly these \<open>n\<close> cycles. (A listener that unregisters in the middle
  of a cycle does not stop that cycle.)
\<close>

theorem loop_runs_while_listeners:
  "(listeners st = [] \<longrightarrow>
      loop st = Some (None, clearRequestBuffer st) \<and>
      usb_log (clearRequestBuffer st) = usb_log st) \<and>
   (\<forall>n st'. cycles n (clearRequestBuffer st) = (None, st') \<and> listeners st' = [] \<and>
      (\<forall>k<n. listeners (snd (cycles k (clearRequestBuffer st))) \<noteq> []) \<longrightarrow>
      loop st = Some (None, st'))"
proof -
  have "loop st = Some (None, clearRequestBuffer st)" if "listeners st = []"
    using that by (simp add: loop_def loop_while.simps clearRequestBuffer_def)
  moreover have "usb_log (clearRequestBuffer st) = usb_log st"
    by (simp add: clearRequestBuffer_def)
  ultimately show ?thesis
    using loop_while_cycles [of _ "clearRequestBuffer st"] by (auto simp: loop_def)
qed

text \<open>
  A logger without listeners returns at once. With the listener that unregisters on
  its first data point, \<open>loop\<close> returns after one cycle, and in that cycle device 1
  is still polled after the listener has gone: device 0 is written to twice (a frame
  with data, then "no new data"), then device 1.
\<close>

theorem loop_runs_while_listeners_witness:
  "loop init_tlx00 = Some (None, clearRequestBuffer init_tlx00) \<and>
   usb_log (clearRequestBuffer init_tlx00) = usb_log init_tlx00 \<and>
   loop quitting_listener_state = Some (cycle (clearRequestBuffer quitting_listener_state)) \<and>
   listeners (snd (cycle (clearRequestBuffer quitting_listener_state))) = [] \<and>
   written_to (usb_log (snd (cycle (clearRequestBuffer quitting_listener_state)))) = [0, 0, 1]"
proof -
  let ?q = "clearRequestBuffer quitting_listener_state"
  have 0: "listeners init_tlx00 = []" by (simp add: init_tlx00_def)
  have 1: "fst (cycle ?q) = None" by code_simp
  have 2: "listeners (snd (cycle ?q)) = []" by code_simp
  have 3: "listeners ?q \<noteq> []" by code_simp
  have 4: "written_to (usb_log (snd (cycle ?q))) = [0, 0, 1]" by code_simp
  from 1 have c: "cycles 1 ?q = (None, snd (cycle ?q))"
    by (cases "cycle ?q") (auto simp: numeral_eq_Suc)
  have k: "\<forall>k<1. listeners (snd (cycles k ?q)) \<noteq> []" using 3 by simp
  from loop_runs_while_listeners [of init_tlx00] 0
  have a: "loop init_tlx00 = Some (None, clearRequestBuffer init_tlx00) \<and>
      usb_log (clearRequestBuffer init_tlx00) = usb_log init_tlx00" by blast
  from loop_runs_while_listeners [of quitting_listener_state] c 2 k
  have "loop quitting_listener_state = Some (None, snd (cycle ?q))" by blast
  with 1 have b: "loop quitting_listener_state = Some (cycle ?q)"
    by (cases "cycle ?q") auto
  from a b 2 4 show ?thesis by blast
qed

end
